theory Spec2Isabelle
  imports
    Complex_Main
    "HOL-Library.Char_ord"
    "HOL-Library.List_Lexorder"
    "HOL-Library.Sublist"
    "HOL-Library.Multiset"
begin

section \<open>Data model\<close>

text \<open>
  The development embeds \<^verbatim>\<open>sampling_articles.py\<close>: the stratified sampler
  \<^verbatim>\<open>sample_impresso_uids\<close>, the refreshing client accessor \<^verbatim>\<open>get_client\<close>
  and the campaign loop of \<^verbatim>\<open>run_all_newsagencies\<close>.

  Python strings are \<open>string\<close>s (UTF-8 bytes; bytewise lexicographic order is code point
  order, which is what \<^verbatim>\<open>sorted\<close> compares). A dict entry read with \<^verbatim>\<open>.get\<close> is an
  \<open>option\<close>: \<open>None\<close> is the missing key. Wall-clock times and the delay are \<open>real\<close>s.
  Logging is not modelled.
\<close>

type_synonym session = nat

datatype date_range = DateRange "string option" "string option"

datatype bucket = Bucket (b_value: "string option") (b_count: int)

datatype hit = Hit (h_uid: "string option")

text \<open>
  What a remote call, or a client accessor passed in by the caller, can raise; and what
  \<^verbatim>\<open>sample_impresso_uids\<close> can raise: a \<^verbatim>\<open>ValueError\<close>, the \<^verbatim>\<open>TypeError\<close> of
  \<^verbatim>\<open>sorted\<close> on keys that do not compare, or an error of a call it does not catch.
  A \<^verbatim>\<open>ValueError\<close> is raised at two places: by the sampler itself for the limit, and by
  the constructor \<^verbatim>\<open>DateRange\<close> for arguments it does not accept; the value says
  which. \<^verbatim>\<open>ImportError\<close> is what \<^verbatim>\<open>_get_impresso_client_lazy\<close> raises.
\<close>

datatype query_error = TransientQueryError | PermanentQueryError | OtherException

datatype value_error = InvalidLimit int | InvalidDate "string option" "string option"

datatype exn = ValueError value_error | TypeError | Raised query_error | ImportError

text \<open>
  The trace of everything the program does to the outside: remote calls with their
  arguments, sleeps, clock reads, session acquisitions and checkpoint writes.
\<close>

datatype event =
    FacetCall session string string "date_range option" nat
  | FindCall session string string date_range bool int
  | Sleep real
  | ClockRead
  | LazyAcquire
  | ProviderCall
  | OpenWrite string

datatype write_outcome = OpenFails | WriteFailsAfter nat | WriteOk

text \<open>
  The outside world answers as a function of the trace so far (the call being answered is
  its last event), so any sequence of answers, failures and clock readings is some \<open>env\<close>.
  The class \<^verbatim>\<open>DateRange\<close> belongs to the \<^verbatim>\<open>impresso\<close> library, which is not part of
  the repository: which pairs of arguments its constructor accepts is the parameter
  \<open>o_date_range_ok\<close>.
\<close>

record env =
  o_date_range_ok :: "string option \<Rightarrow> string option \<Rightarrow> bool"
  o_facet :: "event list \<Rightarrow> query_error + bucket list option"
  o_find :: "event list \<Rightarrow> query_error + hit list option"
  o_choice :: "event list \<Rightarrow> nat"
  o_time :: "event list \<Rightarrow> real"
  o_provider :: "event list \<Rightarrow> query_error + session"
  o_write :: "event list \<Rightarrow> write_outcome"

text \<open>
  The mutable state: the trace, the three \<^verbatim>\<open>nonlocal\<close> variables of \<^verbatim>\<open>get_client\<close>
  and the contents of the checkpoint file (\<open>None\<close>: no file).
\<close>

record world =
  trace :: "event list"
  client :: session
  last_refresh :: real
  last_hint :: real
  out_file :: "string option"

definition emit :: "event \<Rightarrow> world \<Rightarrow> world" where
  "emit ev w = w\<lparr>trace := trace w @ [ev]\<rparr>"

text \<open>The \<^verbatim>\<open>client\<close> argument: a client, or a callable returning the current one.\<close>

datatype client_arg =
    Client session
  | Callable "world \<Rightarrow> (query_error + session) \<times> world"

fun get_c :: "client_arg \<Rightarrow> world \<Rightarrow> (query_error + session) \<times> world" where
  "get_c (Client c) w = (Inr c, w)"
| "get_c (Callable f) w = f w"

section \<open>The sampler\<close>

text \<open>Python truthiness of an optional string: \<^verbatim>\<open>None\<close> and \<^verbatim>\<open>""\<close> are falsy.\<close>

fun truthy :: "string option \<Rightarrow> bool" where
  "truthy None = False"
| "truthy (Some s) = (s \<noteq> [])"

text \<open>\<^verbatim>\<open>raw.get("data", [])\<close>\<close>

fun get_data :: "'a list option \<Rightarrow> 'a list" where
  "get_data None = []"
| "get_data (Some xs) = xs"

definition sort_key_of :: "bucket \<Rightarrow> string" where
  "sort_key_of b = (case b_value b of None \<Rightarrow> [] | Some s \<Rightarrow> s)"

text \<open>
  \<^verbatim>\<open>sorted(year_buckets, key=lambda b: b.get("value"))\<close>: a stable sort by the value.
  With two or more buckets every key is compared at least once, and comparing \<^verbatim>\<open>None\<close>
  raises \<^verbatim>\<open>TypeError\<close>; a list of fewer than two is returned as it is.
\<close>

definition sorted_by_value :: "bucket list \<Rightarrow> exn + bucket list" where
  "sorted_by_value bs =
     (if 2 \<le> length bs \<and> (\<exists>b \<in> set bs. b_value b = None) then Inl TypeError
      else Inr (sort_key sort_key_of bs))"

text \<open>
  \<^verbatim>\<open>DateRange(start, end)\<close>: the range, or the \<^verbatim>\<open>ValueError\<close> of the constructor
  for arguments it does not accept.
\<close>

definition new_DateRange :: "env \<Rightarrow> string option \<Rightarrow> string option \<Rightarrow> exn + date_range" where
  "new_DateRange E start end =
     (if o_date_range_ok E start end then Inr (DateRange start end)
      else Inl (ValueError (InvalidDate start end)))"

text \<open>The range of one year, January 1 to December 31, as a value.\<close>

definition year_span :: "string \<Rightarrow> date_range" where
  "year_span year = DateRange (Some (year @ ''-01-01'')) (Some (year @ ''-12-31''))"

text \<open>\<^verbatim>\<open>DateRange(f"{year}-01-01", f"{year}-12-31")\<close>\<close>

definition year_range :: "env \<Rightarrow> string \<Rightarrow> exn + date_range" where
  "year_range E year = new_DateRange E (Some (year @ ''-01-01'')) (Some (year @ ''-12-31''))"

text \<open>\<^verbatim>\<open>get_c().search.facet(dimension, term=keyword, date_range=date_range, limit=200).raw\<close>\<close>

definition call_facet ::
  "env \<Rightarrow> client_arg \<Rightarrow> string \<Rightarrow> string \<Rightarrow> date_range option \<Rightarrow> world
     \<Rightarrow> (query_error + bucket list option) \<times> world" where
  "call_facet E cl dimension keyword dr w =
     (case get_c cl w of
        (Inl e, w1) \<Rightarrow> (Inl e, w1)
      | (Inr c, w1) \<Rightarrow>
          (let w2 = emit (FacetCall c dimension keyword dr 200) w1
           in (o_facet E (trace w2), w2)))"

text \<open>
  \<^verbatim>\<open>get_c().search.find(term=keyword, newspaper_id=newspaper_id, date_range=date_range,
  with_text_contents=False, limit=limit_per_query).raw\<close>
\<close>

definition call_find ::
  "env \<Rightarrow> client_arg \<Rightarrow> string \<Rightarrow> string \<Rightarrow> date_range \<Rightarrow> int \<Rightarrow> world
     \<Rightarrow> (query_error + hit list option) \<times> world" where
  "call_find E cl keyword newspaper_id dr limit_per_query w =
     (case get_c cl w of
        (Inl e, w1) \<Rightarrow> (Inl e, w1)
      | (Inr c, w1) \<Rightarrow>
          (let w2 = emit (FindCall c keyword newspaper_id dr False limit_per_query) w1
           in (o_find E (trace w2), w2)))"

text \<open>\<^verbatim>\<open>random.choice(hits)\<close> on a non-empty list: some element of it.\<close>

definition random_choice :: "env \<Rightarrow> world \<Rightarrow> 'a list \<Rightarrow> 'a" where
  "random_choice E w xs = xs ! (o_choice E (trace w) mod length xs)"

text \<open>
  How the loop over the newspapers of one year ends: it ran to its end, or the sampler
  returned from inside it. The accumulator is \<^verbatim>\<open>(sampled_uids, found)\<close>.
\<close>

datatype flow = Continue "string list \<times> int" | Return "string list \<times> int"

text \<open>
  One pass through the body of \<^verbatim>\<open>for paper in newspaper_buckets\<close> (lines 172 to
  219). \<open>Continue\<close> is both \<^verbatim>\<open>continue\<close> and falling off the end of the body. The body
  from the accessor call to the append is inside \<^verbatim>\<open>try\<close>, and \<^verbatim>\<open>except Exception\<close>
  only logs: a failing accessor, a failing \<^verbatim>\<open>find\<close> and the \<^verbatim>\<open>ValueError\<close> of
  \<^verbatim>\<open>time.sleep\<close> on a negative delay all go on to the next newspaper.
\<close>

definition paper_body ::
  "env \<Rightarrow> client_arg \<Rightarrow> string \<Rightarrow> date_range \<Rightarrow> int \<Rightarrow> int \<Rightarrow> real
     \<Rightarrow> bucket \<Rightarrow> string list \<times> int \<Rightarrow> world \<Rightarrow> flow \<times> world" where
  "paper_body E cl keyword dr limit_per_query max_hits delay paper acc w =
     (case b_value paper of
        None \<Rightarrow> (Continue acc, w)
      | Some newspaper_id \<Rightarrow>
          if newspaper_id = [] then (Continue acc, w)
          else
            (case call_find E cl keyword newspaper_id dr limit_per_query w of
               (Inl e, w1) \<Rightarrow> (Continue acc, w1)
             | (Inr results, w1) \<Rightarrow>
                 (let hits = get_data results in
                  if delay < 0 then (Continue acc, w1)
                  else
                    (let w2 = emit (Sleep delay) w1 in
                     if hits \<noteq> [] then
                       (case h_uid (random_choice E w2 hits) of
                          None \<Rightarrow> (Continue acc, w2)
                        | Some uid \<Rightarrow>
                            if uid = [] then (Continue acc, w2)
                            else
                              (let acc' = (fst acc @ [uid], snd acc + 1) in
                               if snd acc' \<ge> max_hits then (Return acc', w2)
                               else (Continue acc', w2)))
                     else (Continue acc, w2)))))"

fun paper_loop ::
  "env \<Rightarrow> client_arg \<Rightarrow> string \<Rightarrow> date_range \<Rightarrow> int \<Rightarrow> int \<Rightarrow> real
     \<Rightarrow> bucket list \<Rightarrow> string list \<times> int \<Rightarrow> world \<Rightarrow> flow \<times> world" where
  "paper_loop E cl keyword dr limit_per_query max_hits delay [] acc w = (Continue acc, w)"
| "paper_loop E cl keyword dr limit_per_query max_hits delay (paper # rest) acc w =
     (case paper_body E cl keyword dr limit_per_query max_hits delay paper acc w of
        (Return acc', w') \<Rightarrow> (Return acc', w')
      | (Continue acc', w') \<Rightarrow>
          paper_loop E cl keyword dr limit_per_query max_hits delay rest acc' w')"

text \<open>
  One pass through the body of \<^verbatim>\<open>for year_bucket in sorted_year_buckets\<close> (lines 150
  to 219). The construction of the date range and the newspaper facet call are outside
  every \<^verbatim>\<open>try\<close>: what they raise leaves the function. The newspaper buckets are
  iterated as they came.
\<close>

definition year_body ::
  "env \<Rightarrow> client_arg \<Rightarrow> string \<Rightarrow> int \<Rightarrow> int \<Rightarrow> real
     \<Rightarrow> bucket \<Rightarrow> string list \<times> int \<Rightarrow> world \<Rightarrow> (exn + flow) \<times> world" where
  "year_body E cl keyword limit_per_query max_hits delay year_bucket acc w =
     (case b_value year_bucket of
        None \<Rightarrow> (Inr (Continue acc), w)
      | Some year \<Rightarrow>
          if year = [] then (Inr (Continue acc), w)
          else
            (case year_range E year of
               Inl e \<Rightarrow> (Inl e, w)
             | Inr dr \<Rightarrow>
                 (case call_facet E cl ''newspaper'' keyword (Some dr) w of
                    (Inl e, w1) \<Rightarrow> (Inl (Raised e), w1)
                  | (Inr newspapers_raw, w1) \<Rightarrow>
                      (let newspaper_buckets = get_data newspapers_raw in
                       if newspaper_buckets = [] then (Inr (Continue acc), w1)
                       else
                         (case paper_loop E cl keyword dr limit_per_query max_hits delay
                                 newspaper_buckets acc w1 of
                            (f, w2) \<Rightarrow> (Inr f, w2))))))"

fun year_loop ::
  "env \<Rightarrow> client_arg \<Rightarrow> string \<Rightarrow> int \<Rightarrow> int \<Rightarrow> real
     \<Rightarrow> bucket list \<Rightarrow> string list \<times> int \<Rightarrow> world \<Rightarrow> (exn + flow) \<times> world" where
  "year_loop E cl keyword limit_per_query max_hits delay [] acc w = (Inr (Continue acc), w)"
| "year_loop E cl keyword limit_per_query max_hits delay (year_bucket # rest) acc w =
     (case year_body E cl keyword limit_per_query max_hits delay year_bucket acc w of
        (Inl e, w') \<Rightarrow> (Inl e, w')
      | (Inr (Return acc'), w') \<Rightarrow> (Inr (Return acc'), w')
      | (Inr (Continue acc'), w') \<Rightarrow>
          year_loop E cl keyword limit_per_query max_hits delay rest acc' w')"

text \<open>\<^verbatim>\<open>DateRange(start_date, end_date) if start_date or end_date else None\<close>\<close>

definition initial_range ::
  "env \<Rightarrow> string option \<Rightarrow> string option \<Rightarrow> exn + date_range option" where
  "initial_range E start_date end_date =
     (if truthy start_date \<or> truthy end_date then
        (case new_DateRange E start_date end_date of
           Inl e \<Rightarrow> Inl e
         | Inr dr \<Rightarrow> Inr (Some dr))
      else Inr None)"

definition flow_uids :: "flow \<Rightarrow> string list" where
  "flow_uids f = (case f of Continue acc \<Rightarrow> fst acc | Return acc \<Rightarrow> fst acc)"

text \<open>
  \<^verbatim>\<open>sample_impresso_uids\<close>. The date range of the caller is made before the first
  \<^verbatim>\<open>try\<close>; the year facet call is inside a \<^verbatim>\<open>try\<close> whose handler logs and
  re-raises.
\<close>

definition sample_impresso_uids ::
  "env \<Rightarrow> client_arg \<Rightarrow> string \<Rightarrow> string option \<Rightarrow> string option \<Rightarrow> int \<Rightarrow> int \<Rightarrow> real
     \<Rightarrow> world \<Rightarrow> (exn + string list) \<times> world" where
  "sample_impresso_uids E cl keyword start_date end_date limit_per_query max_hits delay w =
     (if \<not> (0 < limit_per_query \<and> limit_per_query \<le> 100) then
        (Inl (ValueError (InvalidLimit limit_per_query)), w)
      else
        (case initial_range E start_date end_date of
           Inl e \<Rightarrow> (Inl e, w)
         | Inr date_range \<Rightarrow>
             (case call_facet E cl ''year'' keyword date_range w of
                (Inl e, w1) \<Rightarrow> (Inl (Raised e), w1)
              | (Inr year_hits, w1) \<Rightarrow>
                  (let year_buckets = get_data year_hits in
                   if year_buckets = [] then (Inr [], w1)
                   else
                     (case sorted_by_value year_buckets of
                        Inl e \<Rightarrow> (Inl e, w1)
                      | Inr sorted_year_buckets \<Rightarrow>
                          (case year_loop E cl keyword limit_per_query max_hits delay
                                  sorted_year_buckets ([], 0) w1 of
                             (Inl e, w2) \<Rightarrow> (Inl e, w2)
                           | (Inr f, w2) \<Rightarrow> (Inr (flow_uids f), w2)))))))"

section \<open>The refreshing client accessor\<close>

definition CLIENT_REFRESH_INTERVAL_SECONDS :: real where
  "CLIENT_REFRESH_INTERVAL_SECONDS = 27000"

definition CLIENT_REFRESH_HINT_INTERVAL_SECONDS :: real where
  "CLIENT_REFRESH_HINT_INTERVAL_SECONDS = 900"

text \<open>\<^verbatim>\<open>get_impresso_client()\<close> of \<^verbatim>\<open>getting_client.py\<close>: a session, or it raises.\<close>

definition get_impresso_client :: "env \<Rightarrow> world \<Rightarrow> (query_error + session) \<times> world" where
  "get_impresso_client E w = (let w1 = emit ProviderCall w in (o_provider E (trace w1), w1))"

text \<open>
  \<^verbatim>\<open>_get_impresso_client_lazy\<close>: when the first import-and-call raises, the handler
  tries the same once more, and raises \<^verbatim>\<open>ImportError\<close> when that fails too.
\<close>

definition get_impresso_client_lazy :: "env \<Rightarrow> world \<Rightarrow> (exn + session) \<times> world" where
  "get_impresso_client_lazy E w =
     (case get_impresso_client E (emit LazyAcquire w) of
        (Inr c, w1) \<Rightarrow> (Inr c, w1)
      | (Inl e1, w1) \<Rightarrow>
          (case get_impresso_client E w1 of
             (Inr c, w2) \<Rightarrow> (Inr c, w2)
           | (Inl e2, w2) \<Rightarrow> (Inl ImportError, w2)))"

text \<open>
  \<^verbatim>\<open>get_client\<close> (lines 295 to 315), a closure over \<^verbatim>\<open>client\<close>, \<^verbatim>\<open>last_refresh\<close>
  and \<^verbatim>\<open>last_hint\<close>. The hint is a log line; only its timestamp is state.
  \<^verbatim>\<open>last_refresh = now\<close> is after the \<^verbatim>\<open>try\<close>: it runs whether the refresh worked
  or not.
\<close>

definition get_client :: "env \<Rightarrow> world \<Rightarrow> session \<times> world" where
  "get_client E w =
     (let w0 = emit ClockRead w;
          now = o_time E (trace w0);
          w1 = (if now - last_hint w0 \<ge> CLIENT_REFRESH_HINT_INTERVAL_SECONDS
                then w0\<lparr>last_hint := now\<rparr> else w0);
          w3 = (if now - last_refresh w1 \<ge> CLIENT_REFRESH_INTERVAL_SECONDS then
                  (case get_impresso_client_lazy E w1 of
                     (Inr c, w2) \<Rightarrow> w2\<lparr>client := c, last_refresh := now\<rparr>
                   | (Inl e, w2) \<Rightarrow> w2\<lparr>last_refresh := now\<rparr>)
                else w1)
      in (client w3, w3))"

text \<open>\<^verbatim>\<open>get_client\<close> as the callable passed to the sampler.\<close>

definition get_client_arg :: "env \<Rightarrow> client_arg" where
  "get_client_arg E = Callable (\<lambda>w. case get_client E w of (c, w') \<Rightarrow> (Inr c, w'))"

section \<open>The campaign loop\<close>

text \<open>
  \<^verbatim>\<open>results\<close> is a dict from agency to its list of UIDs; a Python dict keeps insertion
  order, and assigning to a present key keeps its place.
\<close>

type_synonym results = "(string \<times> string list) list"

definition dict_get :: "results \<Rightarrow> string \<Rightarrow> string list option" where
  "dict_get d k = map_of d k"

fun dict_set :: "results \<Rightarrow> string \<Rightarrow> string list \<Rightarrow> results" where
  "dict_set [] k v = [(k, v)]"
| "dict_set ((k', v') # d) k v = (if k' = k then (k, v) # d else (k', v') # dict_set d k v)"

text \<open>
  \<^verbatim>\<open>json.dump(results, f, ensure_ascii=False, indent=2)\<close> of the standard library, for
  a dict of lists of strings: the escapes of \<^verbatim>\<open>json.encoder\<close>, two spaces per level,
  \<^verbatim>\<open>","\<close> and a newline between items.
\<close>

definition hex_digit :: "nat \<Rightarrow> char" where
  "hex_digit n = ''0123456789abcdef'' ! n"

definition json_escape :: "char \<Rightarrow> string" where
  "json_escape c =
     (if c = CHR 0x22 then [CHR 0x5C, CHR 0x22]
      else if c = CHR 0x5C then [CHR 0x5C, CHR 0x5C]
      else if c = CHR 0x0A then [CHR 0x5C, CHR ''n'']
      else if c = CHR 0x0D then [CHR 0x5C, CHR ''r'']
      else if c = CHR 0x09 then [CHR 0x5C, CHR ''t'']
      else if c = CHR 0x08 then [CHR 0x5C, CHR ''b'']
      else if c = CHR 0x0C then [CHR 0x5C, CHR ''f'']
      else if (of_char c :: nat) < 32 then
        [CHR 0x5C, CHR ''u'', CHR ''0'', CHR ''0'',
         hex_digit (of_char c div 16), hex_digit (of_char c mod 16)]
      else [c])"

definition json_string :: "string \<Rightarrow> string" where
  "json_string s = CHR 0x22 # concat (map json_escape s) @ [CHR 0x22]"

fun join :: "string \<Rightarrow> string list \<Rightarrow> string" where
  "join sep [] = []"
| "join sep [x] = x"
| "join sep (x # y # ys) = x @ sep @ join sep (y # ys)"

definition json_list :: "string list \<Rightarrow> string" where
  "json_list uids =
     (if uids = [] then ''[]''
      else ''['' @ [CHR 0x0A]
           @ join ('','' @ [CHR 0x0A]) (map (\<lambda>u. ''    '' @ json_string u) uids)
           @ [CHR 0x0A] @ ''  ]'')"

definition json_dumps :: "results \<Rightarrow> string" where
  "json_dumps d =
     (if d = [] then ''{}''
      else ''{'' @ [CHR 0x0A]
           @ join ('','' @ [CHR 0x0A])
               (map (\<lambda>(k, v). ''  '' @ json_string k @ '': '' @ json_list v) d)
           @ [CHR 0x0A] @ ''}'')"

text \<open>
  The incremental save (lines 346 to 351): \<^verbatim>\<open>open(out_path, "w")\<close> truncates the
  file, \<^verbatim>\<open>json.dump\<close> writes into it, and \<^verbatim>\<open>except Exception\<close> only logs. When
  opening fails the file is as it was; when writing fails part way the file holds what
  was written until then.
\<close>

definition persist :: "env \<Rightarrow> results \<Rightarrow> world \<Rightarrow> world" where
  "persist E d w =
     (let w0 = emit (OpenWrite (json_dumps d)) w in
      case o_write E (trace w0) of
        OpenFails \<Rightarrow> w0
      | WriteFailsAfter n \<Rightarrow> w0\<lparr>out_file := Some (take n (json_dumps d))\<rparr>
      | WriteOk \<Rightarrow> w0\<lparr>out_file := Some (json_dumps d)\<rparr>)"

text \<open>
  The file when the process dies inside the \<^verbatim>\<open>with\<close> block, after the truncating
  open and \<open>n\<close> characters of output: there is no temporary file and no rename.
\<close>

definition persist_killed :: "nat \<Rightarrow> results \<Rightarrow> world \<Rightarrow> world" where
  "persist_killed n d w = w\<lparr>out_file := Some (take n (json_dumps d))\<rparr>"

text \<open>
  \<^verbatim>\<open>agency in results and isinstance(results[agency], list) and results[agency]\<close>;
  every value of \<^verbatim>\<open>results\<close> is a list.
\<close>

definition already_done :: "results \<Rightarrow> string \<Rightarrow> bool" where
  "already_done d agency = (case dict_get d agency of Some (x # xs) \<Rightarrow> True | _ \<Rightarrow> False)"

text \<open>
  One pass through the body of \<^verbatim>\<open>for idx, agency in enumerate(agencies, start=1)\<close>
  (lines 322 to 351): skip, or sample through \<^verbatim>\<open>get_client\<close>, record the list (the
  empty list when the sampler raised) and save.
\<close>

definition agency_body ::
  "env \<Rightarrow> string option \<Rightarrow> string option \<Rightarrow> int \<Rightarrow> int \<Rightarrow> real
     \<Rightarrow> string \<Rightarrow> results \<Rightarrow> world \<Rightarrow> results \<times> world" where
  "agency_body E start_date end_date limit_per_query max_hits delay agency d w =
     (if already_done d agency then (d, w)
      else
        (case sample_impresso_uids E (get_client_arg E) agency start_date end_date
                limit_per_query max_hits delay w of
           (r, w1) \<Rightarrow>
             (let d' = dict_set d agency (case r of Inr doc_ids \<Rightarrow> doc_ids | Inl e \<Rightarrow> [])
              in (d', persist E d' w1))))"

fun agency_loop ::
  "env \<Rightarrow> string option \<Rightarrow> string option \<Rightarrow> int \<Rightarrow> int \<Rightarrow> real
     \<Rightarrow> string list \<Rightarrow> results \<Rightarrow> world \<Rightarrow> results \<times> world" where
  "agency_loop E start_date end_date limit_per_query max_hits delay [] d w = (d, w)"
| "agency_loop E start_date end_date limit_per_query max_hits delay (agency # rest) d w =
     (case agency_body E start_date end_date limit_per_query max_hits delay agency d w of
        (d', w') \<Rightarrow> agency_loop E start_date end_date limit_per_query max_hits delay rest d' w')"

text \<open>The remote calls in a trace that search for a given term.\<close>

fun is_call_for :: "string \<Rightarrow> event \<Rightarrow> bool" where
  "is_call_for k (FacetCall c dimension term dr limit) = (term = k)"
| "is_call_for k (FindCall c term newspaper_id dr wtc limit) = (term = k)"
| "is_call_for k ev = False"

definition calls_for :: "string \<Rightarrow> world \<Rightarrow> event list" where
  "calls_for k w = filter (is_call_for k) (trace w)"

section \<open>Scenarios\<close>

text \<open>
  A faked gateway in the manner of the scenario of the specification: \<^verbatim>\<open>agencyA\<close> has
  hits in 1921 and 1920 (returned in that order), every other term has none; each year has
  the newspapers \<^verbatim>\<open>NZZ\<close> and \<^verbatim>\<open>GDL\<close> (returned in that order); each search finds one
  article. The clock reads the length of the trace in seconds.
\<close>

definition fake_facet :: "event list \<Rightarrow> query_error + bucket list option" where
  "fake_facet tr =
     (case last tr of
        FacetCall c dimension term dr limit \<Rightarrow>
          if dimension = ''year'' then
            (if term = ''agencyA''
             then Inr (Some [Bucket (Some ''1921'') 1, Bucket (Some ''1920'') 1])
             else Inr (Some []))
          else Inr (Some [Bucket (Some ''NZZ'') 1, Bucket (Some ''GDL'') 1])
      | _ \<Rightarrow> Inl OtherException)"

definition fake_find :: "event list \<Rightarrow> query_error + hit list option" where
  "fake_find tr =
     (case last tr of
        FindCall c term newspaper_id (DateRange (Some s) e) wtc limit \<Rightarrow>
          Inr (Some [Hit (Some (newspaper_id @ ''-'' @ take 4 s))])
      | _ \<Rightarrow> Inl OtherException)"

text \<open>
  The constructor of date ranges of the scenarios accepts a date that is absent or written
  as four digits, a hyphen, two digits, a hyphen and two digits.
\<close>

definition is_digit :: "char \<Rightarrow> bool" where
  "is_digit c = (c \<in> set ''0123456789'')"

definition iso_date :: "string \<Rightarrow> bool" where
  "iso_date s =
     (length s = 10 \<and> s ! 4 = CHR ''-'' \<and> s ! 7 = CHR ''-''
      \<and> list_all is_digit (take 4 s @ take 2 (drop 5 s) @ take 2 (drop 8 s)))"

definition fake_date_range_ok :: "string option \<Rightarrow> string option \<Rightarrow> bool" where
  "fake_date_range_ok start end =
     ((case start of None \<Rightarrow> True | Some s \<Rightarrow> iso_date s)
      \<and> (case end of None \<Rightarrow> True | Some s \<Rightarrow> iso_date s))"

definition fake_env :: env where
  "fake_env =
     \<lparr>o_date_range_ok = fake_date_range_ok,
      o_facet = fake_facet, o_find = fake_find, o_choice = (\<lambda>tr. 0),
      o_time = (\<lambda>tr. real (length tr)), o_provider = (\<lambda>tr. Inr (length tr)),
      o_write = (\<lambda>tr. WriteOk)\<rparr>"

definition world0 :: world where
  "world0 = \<lparr>trace = [], client = 0, last_refresh = 0, last_hint = 0, out_file = None\<rparr>"

text \<open>The same gateway with every facet call failing.\<close>

definition facet_down_env :: env where
  "facet_down_env = fake_env\<lparr>o_facet := (\<lambda>tr. Inl TransientQueryError)\<rparr>"





text \<open>A gateway whose year facet has a bucket without a value beside the bucket of 1920.\<close>

definition missing_value_env :: env where
  "missing_value_env =
     fake_env\<lparr>o_facet := (\<lambda>tr. Inr (Some [Bucket None 1, Bucket (Some ''1920'') 1]))\<rparr>"

text \<open>A session provider that always fails, and a session held for 30000 seconds.\<close>

definition provider_down_env :: env where
  "provider_down_env = fake_env\<lparr>o_provider := (\<lambda>tr. Inl OtherException)\<rparr>"

definition stale_world :: world where
  "stale_world = world0\<lparr>client := 5, last_refresh := - 30000, last_hint := 0\<rparr>"

text \<open>
  Two readings of a trace: the newspapers searched, and the date ranges of the newspaper
  facet calls, each in the order of the calls.
\<close>

fun searched_in :: "event \<Rightarrow> string list" where
  "searched_in (FindCall c term newspaper_id dr wtc limit) = [newspaper_id]"
| "searched_in ev = []"

definition searched_newspapers :: "event list \<Rightarrow> string list" where
  "searched_newspapers evs = concat (map searched_in evs)"

fun faceted_in :: "event \<Rightarrow> date_range option list" where
  "faceted_in (FacetCall c dimension term dr limit) =
     (if dimension = ''newspaper'' then [dr] else [])"
| "faceted_in ev = []"

definition faceted_ranges :: "event list \<Rightarrow> date_range option list" where
  "faceted_ranges evs = concat (map faceted_in evs)"

text \<open>A gateway that returns the newspapers as \<^verbatim>\<open>GDL\<close>, \<^verbatim>\<open>NZZ\<close> instead.\<close>

definition swapped_facet :: "event list \<Rightarrow> query_error + bucket list option" where
  "swapped_facet tr =
     (case last tr of
        FacetCall c dimension term dr limit \<Rightarrow>
          if dimension = ''year'' then fake_facet tr
          else Inr (Some [Bucket (Some ''GDL'') 1, Bucket (Some ''NZZ'') 1])
      | _ \<Rightarrow> Inl OtherException)"

definition swapped_env :: env where
  "swapped_env = fake_env\<lparr>o_facet := swapped_facet\<rparr>"

text \<open>
  A disk that fails after five characters of every write, and a world whose checkpoint file
  holds the saved empty results.
\<close>

definition disk_full_env :: env where
  "disk_full_env = fake_env\<lparr>o_write := (\<lambda>tr. WriteFailsAfter 5)\<rparr>"

definition saved_world :: world where
  "saved_world = world0\<lparr>out_file := Some (json_dumps [])\<rparr>"

text \<open>
  A session provider whose first call fails and whose second call gives the session 9.
\<close>

definition provider_flaky_env :: env where
  "provider_flaky_env =
     fake_env\<lparr>o_provider :=
       (\<lambda>tr. if count_list tr ProviderCall = 1 then Inl OtherException else Inr 9)\<rparr>"

text \<open>
  The gateway with every facet call failing and a checkpoint file that cannot be opened
  for writing.
\<close>

definition facet_down_locked_env :: env where
  "facet_down_locked_env = facet_down_env\<lparr>o_write := (\<lambda>tr. OpenFails)\<rparr>"

section \<open>Validation of the limit\<close>



lemma year_range_Inr: "year_range E year = Inr dr \<Longrightarrow> dr = year_span year"
  by (auto simp: year_range_def new_DateRange_def year_span_def split: if_splits)







section \<open>A keyword without hits\<close>

text \<open>
  Claim C9. When the year facet call answers with no buckets (an empty or a missing
  \<^verbatim>\<open>data\<close> entry), the sampler returns the empty list, no error, and the trace is what
  the accessor left plus the one year facet call: no newspaper facet call and no search.
  The year facet call is made with the date range \<open>idr\<close> of the caller's dates.
\<close>

theorem no_year_buckets_returns_empty:
  assumes "0 < limit_per_query" "limit_per_query \<le> 100"
    and "initial_range E sd ed = Inr idr"
    and "get_c cl w = (Inr c, w0)"
    and "o_facet E (trace w0 @ [FacetCall c ''year'' keyword idr 200]) = Inr year_hits"
    and "get_data year_hits = []"
  shows "sample_impresso_uids E cl keyword sd ed limit_per_query max_hits delay w
           = (Inr [], emit (FacetCall c ''year'' keyword idr 200) w0)"
  using assms by (simp add: sample_impresso_uids_def call_facet_def emit_def Let_def)

theorem no_year_buckets_returns_empty_witness:
  "(0::int) < 20 \<and> (20::int) \<le> 100
   \<and> initial_range fake_env None None = Inr None
   \<and> get_c (Client 7) world0 = (Inr 7, world0)
   \<and> o_facet fake_env (trace world0 @ [FacetCall 7 ''year'' ''agencyB'' None 200])
       = Inr (Some [])
   \<and> get_data (Some ([] :: bucket list)) = []
   \<and> sample_impresso_uids fake_env (Client 7) ''agencyB'' None None 20 20 1 world0
       = (Inr [], world0\<lparr>trace := [FacetCall 7 ''year'' ''agencyB'' None 200]\<rparr>)"
proof -
  have i: "initial_range fake_env None None = Inr None"
    by (simp add: initial_range_def)
  have h: "o_facet fake_env (trace world0 @ [FacetCall 7 ''year'' ''agencyB'' None 200])
       = Inr (Some [])"
    by (simp add: fake_env_def fake_facet_def)
  have g: "get_c (Client 7) world0 = (Inr 7, world0)" by simp
  have e: "emit (FacetCall 7 ''year'' ''agencyB'' None 200) world0
        = world0\<lparr>trace := [FacetCall 7 ''year'' ''agencyB'' None 200]\<rparr>"
    by (simp add: emit_def world0_def)
  from no_year_buckets_returns_empty
         [of 20 fake_env None None None "Client 7" world0 7 world0 "''agencyB''" "Some []" 20 1,
          OF _ _ i g h] i h g e
  show ?thesis by simp
qed

section \<open>The cap on the number of UIDs\<close>

text \<open>
  While the loops run, \<^verbatim>\<open>found\<close> is the length of \<^verbatim>\<open>sampled_uids\<close> and is below
  \<^verbatim>\<open>max_hits\<close>; the sampler returns from inside the loops exactly when it is equal.
\<close>

lemma paper_body_bound:
  assumes "snd acc = int (length (fst acc))" "snd acc < mh"
    and "paper_body E cl k dr lpq mh delay p acc w = (f, w')"
  shows "case f of Continue a \<Rightarrow> snd a = int (length (fst a)) \<and> snd a < mh
                 | Return a \<Rightarrow> snd a = int (length (fst a)) \<and> snd a = mh"
  using assms
  by (auto simp: paper_body_def Let_def
        split: option.splits if_splits prod.splits sum.splits)

lemma paper_loop_bound:
  assumes "snd acc = int (length (fst acc))" "snd acc < mh"
    and "paper_loop E cl k dr lpq mh delay ps acc w = (f, w')"
  shows "case f of Continue a \<Rightarrow> snd a = int (length (fst a)) \<and> snd a < mh
                 | Return a \<Rightarrow> snd a = int (length (fst a)) \<and> snd a = mh"
  using assms
proof (induction ps arbitrary: acc w)
  case Nil
  then show ?case by auto
next
  case (Cons p ps)
  obtain g w1 where b: "paper_body E cl k dr lpq mh delay p acc w = (g, w1)"
    by (cases "paper_body E cl k dr lpq mh delay p acc w")
  note inv = paper_body_bound [OF Cons.prems(1) Cons.prems(2) b]
  show ?case
  proof (cases g)
    case (Continue a)
    with Cons.prems(3) b have "paper_loop E cl k dr lpq mh delay ps a w1 = (f, w')"
      by simp
    moreover from inv Continue have "snd a = int (length (fst a))" "snd a < mh"
      by simp_all
    ultimately show ?thesis using Cons.IH by blast
  next
    case (Return a)
    with Cons.prems(3) b have "f = Return a" by simp
    with inv Return show ?thesis by simp
  qed
qed

lemma year_body_bound:
  assumes "snd acc = int (length (fst acc))" "snd acc < mh"
    and "year_body E cl k lpq mh delay yb acc w = (Inr f, w')"
  shows "case f of Continue a \<Rightarrow> snd a = int (length (fst a)) \<and> snd a < mh
                 | Return a \<Rightarrow> snd a = int (length (fst a)) \<and> snd a = mh"
proof -
  consider (same) "f = Continue acc"
    | (loop) dr ps w1 where "paper_loop E cl k dr lpq mh delay ps acc w1 = (f, w')"
    using assms(3)
    by (auto simp: year_body_def Let_def
          split: option.splits if_splits prod.splits sum.splits)
  then show ?thesis
  proof cases
    case same
    with assms show ?thesis by simp
  next
    case loop
    then show ?thesis using paper_loop_bound [OF assms(1) assms(2)] by blast
  qed
qed

lemma year_loop_bound:
  assumes "snd acc = int (length (fst acc))" "snd acc < mh"
    and "year_loop E cl k lpq mh delay ybs acc w = (Inr f, w')"
  shows "case f of Continue a \<Rightarrow> snd a = int (length (fst a)) \<and> snd a < mh
                 | Return a \<Rightarrow> snd a = int (length (fst a)) \<and> snd a = mh"
  using assms
proof (induction ybs arbitrary: acc w)
  case Nil
  then show ?case by auto
next
  case (Cons yb ybs)
  obtain r w1 where b: "year_body E cl k lpq mh delay yb acc w = (r, w1)"
    by (cases "year_body E cl k lpq mh delay yb acc w")
  show ?case
  proof (cases r)
    case (Inl e)
    with Cons.prems(3) b show ?thesis by simp
  next
    case (Inr g)
    note inv = year_body_bound [OF Cons.prems(1) Cons.prems(2) b [unfolded Inr]]
    show ?thesis
    proof (cases g)
      case (Continue a)
      with Cons.prems(3) b Inr
      have "year_loop E cl k lpq mh delay ybs a w1 = (Inr f, w')" by simp
      moreover from inv Continue have "snd a = int (length (fst a))" "snd a < mh"
        by simp_all
      ultimately show ?thesis using Cons.IH by blast
    next
      case (Return a)
      with Cons.prems(3) b Inr have "f = Return a" by simp
      with inv Return show ?thesis by simp
    qed
  qed
qed

text \<open>A list returned by the sampler is empty or what the loop over the years collected.\<close>

lemma sample_flow:
  assumes "sample_impresso_uids E cl k sd ed lpq mh delay w = (Inr uids, w')"
  shows "uids = [] \<or>
         (\<exists>ybs w1 f. year_loop E cl k lpq mh delay ybs ([], 0) w1 = (Inr f, w')
            \<and> uids = flow_uids f)"
  using assms
  by (auto simp: sample_impresso_uids_def Let_def
        split: option.splits if_splits prod.splits sum.splits)

text \<open>
  A return from inside the loops comes right after the sleep that follows a search, and
  the UID appended last is the UID of a hit of that search.
\<close>

lemma random_choice_mem: "xs \<noteq> [] \<Longrightarrow> random_choice E w xs \<in> set xs"
  by (simp add: random_choice_def)

lemma h_uid_Some: "h_uid x = Some u \<Longrightarrow> x = Hit (Some u)"
  by (cases x) simp

lemma paper_body_Return_trace:
  assumes "paper_body E cl k dr lpq mh delay p acc w = (Return a, w')"
  shows "\<exists>tr c np hits. trace w' = tr @ [FindCall c k np dr False lpq, Sleep delay]
           \<and> o_find E (tr @ [FindCall c k np dr False lpq]) = Inr hits
           \<and> fst a \<noteq> [] \<and> Hit (Some (last (fst a))) \<in> set (get_data hits)"
proof -
  from assms obtain np c w0 hits u where
    np: "b_value p = Some np" and
    c: "get_c cl w = (Inr c, w0)" and
    f: "o_find E (trace w0 @ [FindCall c k np dr False lpq]) = Inr hits" and
    ne: "get_data hits \<noteq> []" and
    u: "h_uid (random_choice E (emit (Sleep delay) (emit (FindCall c k np dr False lpq) w0))
          (get_data hits)) = Some u" and
    a: "a = (fst acc @ [u], snd acc + 1)" and
    w': "w' = emit (Sleep delay) (emit (FindCall c k np dr False lpq) w0)"
    by (auto simp: paper_body_def call_find_def Let_def emit_def
          split: option.splits if_splits prod.splits sum.splits)
  have "Hit (Some u) \<in> set (get_data hits)"
    using random_choice_mem [OF ne] h_uid_Some [OF u] by metis
  with f a w' show ?thesis
    by (auto simp: emit_def)
qed

lemma paper_loop_Return_trace:
  assumes "paper_loop E cl k dr lpq mh delay ps acc w = (Return a, w')"
  shows "\<exists>tr c np hits. trace w' = tr @ [FindCall c k np dr False lpq, Sleep delay]
           \<and> o_find E (tr @ [FindCall c k np dr False lpq]) = Inr hits
           \<and> fst a \<noteq> [] \<and> Hit (Some (last (fst a))) \<in> set (get_data hits)"
  using assms
proof (induction ps arbitrary: acc w)
  case Nil
  then show ?case by simp
next
  case (Cons p ps)
  obtain g w1 where b: "paper_body E cl k dr lpq mh delay p acc w = (g, w1)"
    by (cases "paper_body E cl k dr lpq mh delay p acc w")
  show ?case
  proof (cases g)
    case (Continue a1)
    with Cons.prems b have "paper_loop E cl k dr lpq mh delay ps a1 w1 = (Return a, w')"
      by simp
    then show ?thesis by (rule Cons.IH)
  next
    case (Return a1)
    with Cons.prems b have "paper_body E cl k dr lpq mh delay p acc w = (Return a, w')"
      by simp
    then show ?thesis by (rule paper_body_Return_trace)
  qed
qed

lemma year_body_Return_trace:
  assumes "year_body E cl k lpq mh delay yb acc w = (Inr (Return a), w')"
  shows "\<exists>tr c np dr hits. trace w' = tr @ [FindCall c k np dr False lpq, Sleep delay]
           \<and> o_find E (tr @ [FindCall c k np dr False lpq]) = Inr hits
           \<and> fst a \<noteq> [] \<and> Hit (Some (last (fst a))) \<in> set (get_data hits)"
proof -
  from assms obtain dr ps w1 where
    "paper_loop E cl k dr lpq mh delay ps acc w1 = (Return a, w')"
    by (auto simp: year_body_def Let_def
          split: option.splits if_splits prod.splits sum.splits)
  from paper_loop_Return_trace [OF this] show ?thesis by blast
qed

lemma year_loop_Return_trace:
  assumes "year_loop E cl k lpq mh delay ybs acc w = (Inr (Return a), w')"
  shows "\<exists>tr c np dr hits. trace w' = tr @ [FindCall c k np dr False lpq, Sleep delay]
           \<and> o_find E (tr @ [FindCall c k np dr False lpq]) = Inr hits
           \<and> fst a \<noteq> [] \<and> Hit (Some (last (fst a))) \<in> set (get_data hits)"
  using assms
proof (induction ybs arbitrary: acc w)
  case Nil
  then show ?case by simp
next
  case (Cons yb ybs)
  obtain r w1 where b: "year_body E cl k lpq mh delay yb acc w = (r, w1)"
    by (cases "year_body E cl k lpq mh delay yb acc w")
  show ?case
  proof (cases r)
    case (Inl e)
    with Cons.prems b show ?thesis by simp
  next
    case (Inr g)
    show ?thesis
    proof (cases g)
      case (Continue a1)
      with Cons.prems b Inr
      have "year_loop E cl k lpq mh delay ybs a1 w1 = (Inr (Return a), w')" by simp
      then show ?thesis by (rule Cons.IH)
    next
      case (Return a1)
      with Cons.prems b Inr
      have "year_body E cl k lpq mh delay yb acc w = (Inr (Return a), w')" by simp
      then show ?thesis by (rule year_body_Return_trace)
    qed
  qed
qed

text \<open>
  Claim C2. With \<open>max_hits\<close> positive, a list returned by the sampler has at most
  \<open>max_hits\<close> UIDs; when it has \<open>max_hits\<close>, the last events of the trace are the search
  that gave the last UID and the sleep after it. In the loops: a pass that starts below the
  cap ends with a return exactly when the count is \<open>max_hits\<close>, and then the loop over the
  newspapers and the loop over the years stop in the world of that pass, whatever buckets
  remain.
\<close>

theorem max_hits_cap:
  assumes "0 < max_hits"
  shows "(sample_impresso_uids E cl keyword sd ed lpq max_hits delay w = (Inr uids, w') \<longrightarrow>
            int (length uids) \<le> max_hits
            \<and> (int (length uids) = max_hits \<longrightarrow>
                 (\<exists>tr c np dr hits.
                    trace w' = tr @ [FindCall c keyword np dr False lpq, Sleep delay]
                    \<and> o_find E (tr @ [FindCall c keyword np dr False lpq]) = Inr hits
                    \<and> Hit (Some (last uids)) \<in> set (get_data hits))))
     \<and> (int (length us) < max_hits
          \<and> paper_body E cl keyword pdr lpq max_hits delay paper (us, int (length us)) w1
              = (f, w2) \<longrightarrow>
          (case f of
             Continue a \<Rightarrow> int (length (fst a)) < max_hits
           | Return a \<Rightarrow> int (length (fst a)) = max_hits
               \<and> paper_loop E cl keyword pdr lpq max_hits delay (paper # rest)
                    (us, int (length us)) w1 = (Return a, w2)))
     \<and> (year_body E cl keyword lpq max_hits delay yb acc w3 = (Inr (Return a'), w4) \<longrightarrow>
          year_loop E cl keyword lpq max_hits delay (yb # yrest) acc w3
            = (Inr (Return a'), w4))"
proof -
  have part1: "sample_impresso_uids E cl keyword sd ed lpq max_hits delay w = (Inr uids, w') \<longrightarrow>
            int (length uids) \<le> max_hits
            \<and> (int (length uids) = max_hits \<longrightarrow>
                 (\<exists>tr c np dr hits.
                    trace w' = tr @ [FindCall c keyword np dr False lpq, Sleep delay]
                    \<and> o_find E (tr @ [FindCall c keyword np dr False lpq]) = Inr hits
                    \<and> Hit (Some (last uids)) \<in> set (get_data hits)))"
  proof
    assume s: "sample_impresso_uids E cl keyword sd ed lpq max_hits delay w = (Inr uids, w')"
    from sample_flow [OF s]
    consider (empty) "uids = []"
      | (loop) ybs w1 f where
          "year_loop E cl keyword lpq max_hits delay ybs ([], 0) w1 = (Inr f, w')"
          "uids = flow_uids f"
      by blast
    then show "int (length uids) \<le> max_hits \<and>
       (int (length uids) = max_hits \<longrightarrow>
          (\<exists>tr c np dr hits.
             trace w' = tr @ [FindCall c keyword np dr False lpq, Sleep delay]
             \<and> o_find E (tr @ [FindCall c keyword np dr False lpq]) = Inr hits
             \<and> Hit (Some (last uids)) \<in> set (get_data hits)))"
    proof cases
      case empty
      with assms show ?thesis by simp
    next
      case loop
      have inv: "case f of Continue a \<Rightarrow> snd a = int (length (fst a)) \<and> snd a < max_hits
                   | Return a \<Rightarrow> snd a = int (length (fst a)) \<and> snd a = max_hits"
        using year_loop_bound [OF _ _ loop(1)] assms by simp
      show ?thesis
      proof (cases f)
        case (Continue a)
        with inv loop(2) show ?thesis by (simp add: flow_uids_def)
      next
        case (Return a)
        from year_loop_Return_trace [OF loop(1) [unfolded Return]] inv Return loop(2)
        show ?thesis by (simp add: flow_uids_def) blast
      qed
    qed
  qed
  have part2: "int (length us) < max_hits
          \<and> paper_body E cl keyword pdr lpq max_hits delay paper (us, int (length us)) w1
              = (f, w2) \<longrightarrow>
          (case f of
             Continue a \<Rightarrow> int (length (fst a)) < max_hits
           | Return a \<Rightarrow> int (length (fst a)) = max_hits
               \<and> paper_loop E cl keyword pdr lpq max_hits delay (paper # rest)
                    (us, int (length us)) w1 = (Return a, w2))"
  proof
    assume h: "int (length us) < max_hits
          \<and> paper_body E cl keyword pdr lpq max_hits delay paper (us, int (length us)) w1
              = (f, w2)"
    then have b: "paper_body E cl keyword pdr lpq max_hits delay paper (us, int (length us)) w1
              = (f, w2)" by simp
    have inv: "case f of Continue a \<Rightarrow> snd a = int (length (fst a)) \<and> snd a < max_hits
                 | Return a \<Rightarrow> snd a = int (length (fst a)) \<and> snd a = max_hits"
      using paper_body_bound [OF _ _ b] h by simp
    show "case f of
             Continue a \<Rightarrow> int (length (fst a)) < max_hits
           | Return a \<Rightarrow> int (length (fst a)) = max_hits
               \<and> paper_loop E cl keyword pdr lpq max_hits delay (paper # rest)
                    (us, int (length us)) w1 = (Return a, w2)"
      using inv b by (cases f) simp_all
  qed
  have part3: "year_body E cl keyword lpq max_hits delay yb acc w3 = (Inr (Return a'), w4) \<longrightarrow>
          year_loop E cl keyword lpq max_hits delay (yb # yrest) acc w3
            = (Inr (Return a'), w4)"
    by simp
  show ?thesis by (rule conjI [OF part1 conjI [OF part2 part3]])
qed

theorem max_hits_cap_witness:
  "(0::int) < 3
   \<and> sample_impresso_uids fake_env (Client 7) ''agencyA'' None None 20 3 1 world0
       = (Inr [''NZZ-1920'', ''GDL-1920'', ''NZZ-1921''],
          world0\<lparr>trace :=
            [FacetCall 7 ''year'' ''agencyA'' None 200,
             FacetCall 7 ''newspaper'' ''agencyA'' (Some (year_span ''1920'')) 200,
             FindCall 7 ''agencyA'' ''NZZ'' (year_span ''1920'') False 20, Sleep 1,
             FindCall 7 ''agencyA'' ''GDL'' (year_span ''1920'') False 20, Sleep 1,
             FacetCall 7 ''newspaper'' ''agencyA'' (Some (year_span ''1921'')) 200,
             FindCall 7 ''agencyA'' ''NZZ'' (year_span ''1921'') False 20, Sleep 1]\<rparr>)
   \<and> int (length [''NZZ-1920'', ''GDL-1920'', ''NZZ-1921'']) \<le> 3
   \<and> int (length [''NZZ-1920'', ''GDL-1920'']) < 3
   \<and> paper_body fake_env (Client 7) ''agencyA'' (year_span ''1921'') 20 3 1
         (Bucket (Some ''NZZ'') 1) ([''NZZ-1920'', ''GDL-1920''], 2) world0
       = (Return ([''NZZ-1920'', ''GDL-1920'', ''NZZ-1921''], 3),
          world0\<lparr>trace :=
            [FindCall 7 ''agencyA'' ''NZZ'' (year_span ''1921'') False 20, Sleep 1]\<rparr>)
   \<and> paper_loop fake_env (Client 7) ''agencyA'' (year_span ''1921'') 20 3 1
         [Bucket (Some ''NZZ'') 1, Bucket (Some ''GDL'') 1]
         ([''NZZ-1920'', ''GDL-1920''], 2) world0
       = (Return ([''NZZ-1920'', ''GDL-1920'', ''NZZ-1921''], 3),
          world0\<lparr>trace :=
            [FindCall 7 ''agencyA'' ''NZZ'' (year_span ''1921'') False 20, Sleep 1]\<rparr>)
   \<and> year_body fake_env (Client 7) ''agencyA'' 20 3 1
         (Bucket (Some ''1921'') 1) ([''NZZ-1920'', ''GDL-1920''], 2) world0
       = (Inr (Return ([''NZZ-1920'', ''GDL-1920'', ''NZZ-1921''], 3)),
          world0\<lparr>trace :=
            [FacetCall 7 ''newspaper'' ''agencyA'' (Some (year_span ''1921'')) 200,
             FindCall 7 ''agencyA'' ''NZZ'' (year_span ''1921'') False 20, Sleep 1]\<rparr>)
   \<and> year_loop fake_env (Client 7) ''agencyA'' 20 3 1
         [Bucket (Some ''1921'') 1, Bucket (Some ''1922'') 1]
         ([''NZZ-1920'', ''GDL-1920''], 2) world0
       = (Inr (Return ([''NZZ-1920'', ''GDL-1920'', ''NZZ-1921''], 3)),
          world0\<lparr>trace :=
            [FacetCall 7 ''newspaper'' ''agencyA'' (Some (year_span ''1921'')) 200,
             FindCall 7 ''agencyA'' ''NZZ'' (year_span ''1921'') False 20, Sleep 1]\<rparr>)"
proof -
  have pos: "(0::int) < 3" by simp
  have s: "sample_impresso_uids fake_env (Client 7) ''agencyA'' None None 20 3 1 world0
       = (Inr [''NZZ-1920'', ''GDL-1920'', ''NZZ-1921''],
          world0\<lparr>trace :=
            [FacetCall 7 ''year'' ''agencyA'' None 200,
             FacetCall 7 ''newspaper'' ''agencyA'' (Some (year_span ''1920'')) 200,
             FindCall 7 ''agencyA'' ''NZZ'' (year_span ''1920'') False 20, Sleep 1,
             FindCall 7 ''agencyA'' ''GDL'' (year_span ''1920'') False 20, Sleep 1,
             FacetCall 7 ''newspaper'' ''agencyA'' (Some (year_span ''1921'')) 200,
             FindCall 7 ''agencyA'' ''NZZ'' (year_span ''1921'') False 20, Sleep 1]\<rparr>)"
    by code_simp
  have b: "paper_body fake_env (Client 7) ''agencyA'' (year_span ''1921'') 20 3 1
         (Bucket (Some ''NZZ'') 1) ([''NZZ-1920'', ''GDL-1920''], int (length [''NZZ-1920'', ''GDL-1920''])) world0
       = (Return ([''NZZ-1920'', ''GDL-1920'', ''NZZ-1921''], 3),
          world0\<lparr>trace :=
            [FindCall 7 ''agencyA'' ''NZZ'' (year_span ''1921'') False 20, Sleep 1]\<rparr>)"
    by code_simp
  have y: "year_body fake_env (Client 7) ''agencyA'' 20 3 1
         (Bucket (Some ''1921'') 1) ([''NZZ-1920'', ''GDL-1920''], 2) world0
       = (Inr (Return ([''NZZ-1920'', ''GDL-1920'', ''NZZ-1921''], 3)),
          world0\<lparr>trace :=
            [FacetCall 7 ''newspaper'' ''agencyA'' (Some (year_span ''1921'')) 200,
             FindCall 7 ''agencyA'' ''NZZ'' (year_span ''1921'') False 20, Sleep 1]\<rparr>)"
    by code_simp
  note t = max_hits_cap [OF pos, where E = fake_env and cl = "Client 7"
      and keyword = "''agencyA''" and sd = None and ed = None and lpq = 20 and delay = 1
      and w = world0 and uids = "[''NZZ-1920'', ''GDL-1920'', ''NZZ-1921'']"
      and us = "[''NZZ-1920'', ''GDL-1920'']" and pdr = "year_span ''1921''"
      and paper = "Bucket (Some ''NZZ'') 1" and ?w1.0 = world0
      and rest = "[Bucket (Some ''GDL'') 1]"
      and yb = "Bucket (Some ''1921'') 1" and acc = "([''NZZ-1920'', ''GDL-1920''], 2)"
      and ?w3.0 = world0 and yrest = "[Bucket (Some ''1922'') 1]"]
  have p2: "paper_loop fake_env (Client 7) ''agencyA'' (year_span ''1921'') 20 3 1
         [Bucket (Some ''NZZ'') 1, Bucket (Some ''GDL'') 1]
         ([''NZZ-1920'', ''GDL-1920''], 2) world0
       = (Return ([''NZZ-1920'', ''GDL-1920'', ''NZZ-1921''], 3),
          world0\<lparr>trace :=
            [FindCall 7 ''agencyA'' ''NZZ'' (year_span ''1921'') False 20, Sleep 1]\<rparr>)"
    using t b by auto
  have p3: "year_loop fake_env (Client 7) ''agencyA'' 20 3 1
         [Bucket (Some ''1921'') 1, Bucket (Some ''1922'') 1]
         ([''NZZ-1920'', ''GDL-1920''], 2) world0
       = (Inr (Return ([''NZZ-1920'', ''GDL-1920'', ''NZZ-1921''], 3)),
          world0\<lparr>trace :=
            [FacetCall 7 ''newspaper'' ''agencyA'' (Some (year_span ''1921'')) 200,
             FindCall 7 ''agencyA'' ''NZZ'' (year_span ''1921'') False 20, Sleep 1]\<rparr>)"
    using t y by blast
  have p1: "int (length [''NZZ-1920'', ''GDL-1920'', ''NZZ-1921'']) \<le> 3"
    using t s by blast
  from pos s p1 b p2 y p3 show ?thesis by simp
qed

section \<open>Errors of the remote calls\<close>






section \<open>The order of the cells\<close>

text \<open>
  The lemmas of this section are about an accessor that makes no search and no newspaper
  facet call of its own and only adds to the trace; a client passed as it is and
  \<^verbatim>\<open>get_client\<close> are such accessors.
\<close>

lemma searched_Nil [simp]: "searched_newspapers [] = []"
  by (simp add: searched_newspapers_def)

lemma faceted_Nil [simp]: "faceted_ranges [] = []"
  by (simp add: faceted_ranges_def)

lemma searched_append [simp]:
  "searched_newspapers (xs @ ys) = searched_newspapers xs @ searched_newspapers ys"
  by (simp add: searched_newspapers_def)

lemma faceted_append [simp]:
  "faceted_ranges (xs @ ys) = faceted_ranges xs @ faceted_ranges ys"
  by (simp add: faceted_ranges_def)

lemma call_find_order:
  assumes q: "\<And>w. \<exists>evs. trace (snd (get_c cl w)) = trace w @ evs
                 \<and> searched_newspapers evs = [] \<and> faceted_ranges evs = []"
    and "call_find E cl k np dr lpq w = (r, w')"
  shows "\<exists>evs. trace w' = trace w @ evs \<and> subseq (searched_newspapers evs) [np]
           \<and> faceted_ranges evs = []"
proof -
  obtain g w0 where g: "get_c cl w = (g, w0)" by (cases "get_c cl w")
  from q [of w] g obtain evs where
    evs: "trace w0 = trace w @ evs" "searched_newspapers evs = []" "faceted_ranges evs = []"
    by auto
  show ?thesis
  proof (cases g)
    case (Inl e)
    with assms(2) g have "w' = w0" by (simp add: call_find_def)
    with evs show ?thesis by auto
  next
    case (Inr c)
    with assms(2) g have "w' = emit (FindCall c k np dr False lpq) w0"
      by (simp add: call_find_def Let_def)
    then have "trace w' = trace w @ (evs @ [FindCall c k np dr False lpq])"
      using evs by (simp add: emit_def)
    moreover have "searched_newspapers (evs @ [FindCall c k np dr False lpq]) = [np]"
      "faceted_ranges (evs @ [FindCall c k np dr False lpq]) = []"
      using evs by (simp_all add: searched_newspapers_def faceted_ranges_def)
    ultimately show ?thesis by (metis subseq_order.order_refl)
  qed
qed

lemma paper_body_order:
  assumes q: "\<And>w. \<exists>evs. trace (snd (get_c cl w)) = trace w @ evs
                 \<and> searched_newspapers evs = [] \<and> faceted_ranges evs = []"
    and "paper_body E cl k dr lpq mh delay p acc w = (f, w')"
  shows "\<exists>evs. trace w' = trace w @ evs \<and> subseq (searched_newspapers evs) [sort_key_of p]
           \<and> faceted_ranges evs = []"
proof -
  have same: ?thesis if "w' = w" using that by auto
  have one: ?thesis
    if c: "call_find E cl k np dr lpq w = (r, w1)" and np: "b_value p = Some np"
      and w': "w' = w1 \<or> w' = emit (Sleep delay) w1" for np r w1
  proof -
    from call_find_order [OF q c] obtain evs where
      evs: "trace w1 = trace w @ evs" "subseq (searched_newspapers evs) [np]"
        "faceted_ranges evs = []" by blast
    from w' show ?thesis
    proof
      assume "w' = w1"
      with evs np show ?thesis by (auto simp: sort_key_of_def)
    next
      assume "w' = emit (Sleep delay) w1"
      then have "trace w' = trace w @ (evs @ [Sleep delay])"
        using evs by (simp add: emit_def)
      moreover have "searched_newspapers (evs @ [Sleep delay]) = searched_newspapers evs"
        "faceted_ranges (evs @ [Sleep delay]) = []"
        using evs by (simp_all add: searched_newspapers_def faceted_ranges_def)
      ultimately show ?thesis using evs np by (metis sort_key_of_def option.simps(5))
    qed
  qed
  from assms(2) consider (s) "w' = w"
    | (o) np r w1 where "call_find E cl k np dr lpq w = (r, w1)" "b_value p = Some np"
        "w' = w1 \<or> w' = emit (Sleep delay) w1"
    by (auto simp: paper_body_def Let_def
          split: option.splits if_splits prod.splits sum.splits)
  then show ?thesis
  proof cases
    case s then show ?thesis by (rule same)
  next
    case o then show ?thesis by (rule one)
  qed
qed

lemma paper_loop_order:
  assumes q: "\<And>w. \<exists>evs. trace (snd (get_c cl w)) = trace w @ evs
                 \<and> searched_newspapers evs = [] \<and> faceted_ranges evs = []"
    and "paper_loop E cl k dr lpq mh delay ps acc w = (f, w')"
  shows "\<exists>evs. trace w' = trace w @ evs
           \<and> subseq (searched_newspapers evs) (map sort_key_of ps)
           \<and> faceted_ranges evs = []"
  using assms(2)
proof (induction ps arbitrary: acc w)
  case Nil
  then show ?case by auto
next
  case (Cons p ps)
  obtain g w1 where b: "paper_body E cl k dr lpq mh delay p acc w = (g, w1)"
    by (cases "paper_body E cl k dr lpq mh delay p acc w")
  from paper_body_order [OF q b] obtain evs where
    evs: "trace w1 = trace w @ evs" "subseq (searched_newspapers evs) [sort_key_of p]"
      "faceted_ranges evs = []" by blast
  show ?case
  proof (cases g)
    case (Return a)
    with Cons.prems b have "w' = w1" by simp
    moreover have "subseq (searched_newspapers evs) (map sort_key_of (p # ps))"
      using evs(2) list_emb_append_mono [of "(=)" "searched_newspapers evs" "[sort_key_of p]" "[]" "map sort_key_of ps"]
      by simp
    ultimately show ?thesis using evs by blast
  next
    case (Continue a)
    with Cons.prems b have "paper_loop E cl k dr lpq mh delay ps a w1 = (f, w')" by simp
    from Cons.IH [OF this] obtain evs' where
      evs': "trace w' = trace w1 @ evs'" "subseq (searched_newspapers evs') (map sort_key_of ps)"
        "faceted_ranges evs' = []" by blast
    have "trace w' = trace w @ (evs @ evs')" using evs evs' by simp
    moreover have "subseq (searched_newspapers (evs @ evs')) (map sort_key_of (p # ps))"
      using list_emb_append_mono [OF evs(2) evs'(2)] by simp
    moreover have "faceted_ranges (evs @ evs') = []" using evs evs' by simp
    ultimately show ?thesis by blast
  qed
qed

lemma call_facet_order:
  assumes q: "\<And>w. \<exists>evs. trace (snd (get_c cl w)) = trace w @ evs
                 \<and> searched_newspapers evs = [] \<and> faceted_ranges evs = []"
    and "call_facet E cl ''newspaper'' k dr w = (r, w')"
  shows "\<exists>evs. trace w' = trace w @ evs \<and> subseq (faceted_ranges evs) [dr]"
proof -
  obtain g w0 where g: "get_c cl w = (g, w0)" by (cases "get_c cl w")
  from q [of w] g obtain evs where
    evs: "trace w0 = trace w @ evs" "searched_newspapers evs = []" "faceted_ranges evs = []"
    by auto
  show ?thesis
  proof (cases g)
    case (Inl e)
    with assms(2) g have "w' = w0" by (simp add: call_facet_def)
    with evs show ?thesis by auto
  next
    case (Inr c)
    with assms(2) g have "w' = emit (FacetCall c ''newspaper'' k dr 200) w0"
      by (simp add: call_facet_def Let_def)
    then have "trace w' = trace w @ (evs @ [FacetCall c ''newspaper'' k dr 200])"
      using evs by (simp add: emit_def)
    moreover have "faceted_ranges (evs @ [FacetCall c ''newspaper'' k dr 200]) = [dr]"
      using evs by (simp add: faceted_ranges_def)
    ultimately show ?thesis by (metis subseq_order.order_refl)
  qed
qed

lemma year_body_order:
  assumes q: "\<And>w. \<exists>evs. trace (snd (get_c cl w)) = trace w @ evs
                 \<and> searched_newspapers evs = [] \<and> faceted_ranges evs = []"
    and "year_body E cl k lpq mh delay yb acc w = (r, w')"
  shows "\<exists>evs. trace w' = trace w @ evs
           \<and> subseq (faceted_ranges evs) [Some (year_span (sort_key_of yb))]"
proof -
  have "(w' = w)
      \<or> (\<exists>year fr. b_value yb = Some year
            \<and> call_facet E cl ''newspaper'' k (Some (year_span year)) w = (fr, w'))
      \<or> (\<exists>year fr w1 ps f. b_value yb = Some year
            \<and> call_facet E cl ''newspaper'' k (Some (year_span year)) w = (fr, w1)
            \<and> paper_loop E cl k (year_span year) lpq mh delay ps acc w1 = (f, w'))"
    using assms(2)
    by (auto simp: year_body_def Let_def
          split: option.splits if_splits prod.splits sum.splits
          dest!: year_range_Inr)
  then consider (s) "w' = w"
    | (f) year fr where "b_value yb = Some year"
        "call_facet E cl ''newspaper'' k (Some (year_span year)) w = (fr, w')"
    | (l) year fr w1 ps f where "b_value yb = Some year"
        "call_facet E cl ''newspaper'' k (Some (year_span year)) w = (fr, w1)"
        "paper_loop E cl k (year_span year) lpq mh delay ps acc w1 = (f, w')"
    by blast
  then show ?thesis
  proof cases
    case s
    then show ?thesis by auto
  next
    case f
    from call_facet_order [OF q f(2)] f(1) show ?thesis by (simp add: sort_key_of_def)
  next
    case l
    from call_facet_order [OF q l(2)] obtain evs where
      evs: "trace w1 = trace w @ evs" "subseq (faceted_ranges evs) [Some (year_span year)]"
      by blast
    from paper_loop_order [OF q l(3)] obtain evs' where
      evs': "trace w' = trace w1 @ evs'" "faceted_ranges evs' = []" by blast
    have "trace w' = trace w @ (evs @ evs')" using evs evs' by simp
    moreover have "faceted_ranges (evs @ evs') = faceted_ranges evs" using evs' by simp
    ultimately show ?thesis using evs(2) l(1) by (metis sort_key_of_def option.simps(5))
  qed
qed

lemma year_loop_order:
  assumes q: "\<And>w. \<exists>evs. trace (snd (get_c cl w)) = trace w @ evs
                 \<and> searched_newspapers evs = [] \<and> faceted_ranges evs = []"
    and "year_loop E cl k lpq mh delay ybs acc w = (r, w')"
  shows "\<exists>evs. trace w' = trace w @ evs
           \<and> subseq (faceted_ranges evs) (map (\<lambda>b. Some (year_span (sort_key_of b))) ybs)"
  using assms(2)
proof (induction ybs arbitrary: acc w)
  case Nil
  then show ?case by auto
next
  case (Cons yb ybs)
  obtain g w1 where b: "year_body E cl k lpq mh delay yb acc w = (g, w1)"
    by (cases "year_body E cl k lpq mh delay yb acc w")
  from year_body_order [OF q b] obtain evs where
    evs: "trace w1 = trace w @ evs"
      "subseq (faceted_ranges evs) [Some (year_span (sort_key_of yb))]" by blast
  have stop: ?case if "w' = w1"
  proof -
    have "subseq (faceted_ranges evs)
            (map (\<lambda>b. Some (year_span (sort_key_of b))) (yb # ybs))"
      using evs(2)
        list_emb_append_mono [of "(=)" "faceted_ranges evs"
          "[Some (year_span (sort_key_of yb))]" "[]"
          "map (\<lambda>b. Some (year_span (sort_key_of b))) ybs"]
      by simp
    with that evs show ?thesis by blast
  qed
  show ?case
  proof (cases g)
    case (Inl e)
    with Cons.prems b have "w' = w1" by simp
    then show ?thesis by (rule stop)
  next
    case (Inr fl)
    show ?thesis
    proof (cases fl)
      case (Return a)
      with Cons.prems b Inr have "w' = w1" by simp
      then show ?thesis by (rule stop)
    next
      case (Continue a)
      with Cons.prems b Inr have "year_loop E cl k lpq mh delay ybs a w1 = (r, w')" by simp
      from Cons.IH [OF this] obtain evs' where
        evs': "trace w' = trace w1 @ evs'"
          "subseq (faceted_ranges evs') (map (\<lambda>b. Some (year_span (sort_key_of b))) ybs)"
        by blast
      have "trace w' = trace w @ (evs @ evs')" using evs evs' by simp
      moreover have "subseq (faceted_ranges (evs @ evs'))
            (map (\<lambda>b. Some (year_span (sort_key_of b))) (yb # ybs))"
        using list_emb_append_mono [OF evs(2) evs'(2)] by simp
      ultimately show ?thesis by blast
    qed
  qed
qed

lemma sample_order:
  assumes q: "\<And>w. \<exists>evs. trace (snd (get_c cl w)) = trace w @ evs
                 \<and> searched_newspapers evs = [] \<and> faceted_ranges evs = []"
    and "0 < lpq" "lpq \<le> 100"
    and i: "initial_range E sd ed = Inr idr"
    and g: "get_c cl w = (Inr c, w0)"
    and o: "o_facet E (trace w0 @ [FacetCall c ''year'' k idr 200]) = Inr raw"
    and ss: "sorted_by_value (get_data raw) = Inr ss"
    and s: "sample_impresso_uids E cl k sd ed lpq mh delay w = (r, w')"
  shows "\<exists>evs. trace w' = trace w0 @ FacetCall c ''year'' k idr 200 # evs
           \<and> subseq (faceted_ranges evs) (map (\<lambda>b. Some (year_span (sort_key_of b))) ss)"
proof -
  let ?w1 = "emit (FacetCall c ''year'' k idr 200) w0"
  have cf: "call_facet E cl ''year'' k idr w = (Inr raw, ?w1)"
    using g o by (simp add: call_facet_def Let_def emit_def)
  have t1: "trace ?w1 = trace w0 @ [FacetCall c ''year'' k idr 200]"
    by (simp add: emit_def)
  show ?thesis
  proof (cases "get_data raw = []")
    case True
    with s cf i assms(2,3) have "w' = ?w1" by (simp add: sample_impresso_uids_def)
    with t1 show ?thesis by auto
  next
    case False
    obtain yr w2 where yl: "year_loop E cl k lpq mh delay ss ([], 0) ?w1 = (yr, w2)"
      by (cases "year_loop E cl k lpq mh delay ss ([], 0) ?w1")
    with s cf i assms(2,3) False ss have "w' = w2"
      by (auto simp: sample_impresso_uids_def split: sum.splits)
    moreover from year_loop_order [OF q yl] obtain evs where
      "trace w2 = trace ?w1 @ evs"
      "subseq (faceted_ranges evs) (map (\<lambda>b. Some (year_span (sort_key_of b))) ss)"
      by blast
    ultimately show ?thesis using t1 by auto
  qed
qed

text \<open>The searches of one year follow the newspaper buckets of the gateway's answer.\<close>

lemma year_body_searches_as_returned:
  assumes q: "\<And>w. \<exists>evs. trace (snd (get_c cl w)) = trace w @ evs
                 \<and> searched_newspapers evs = [] \<and> faceted_ranges evs = []"
    and y: "b_value yb = Some year" "year \<noteq> []" "year_range E year = Inr ydr"
    and g: "get_c cl w = (Inr c, w0)"
    and o: "o_facet E (trace w0 @ [FacetCall c ''newspaper'' k (Some ydr) 200]) = Inr raw"
    and b: "year_body E cl k lpq mh delay yb acc w = (r, w')"
  shows "\<exists>evs. trace w' = trace w0 @ FacetCall c ''newspaper'' k (Some ydr) 200 # evs
           \<and> subseq (searched_newspapers evs) (map sort_key_of (get_data raw))"
proof -
  let ?w1 = "emit (FacetCall c ''newspaper'' k (Some ydr) 200) w0"
  have cf: "call_facet E cl ''newspaper'' k (Some ydr) w = (Inr raw, ?w1)"
    using g o by (simp add: call_facet_def Let_def emit_def)
  have t1: "trace ?w1 = trace w0 @ [FacetCall c ''newspaper'' k (Some ydr) 200]"
    by (simp add: emit_def)
  show ?thesis
  proof (cases "get_data raw = []")
    case True
    with b y cf have "w' = ?w1" by (simp add: year_body_def)
    with t1 show ?thesis by auto
  next
    case False
    obtain f w2 where pl: "paper_loop E cl k ydr lpq mh delay (get_data raw) acc ?w1 = (f, w2)"
      by (cases "paper_loop E cl k ydr lpq mh delay (get_data raw) acc ?w1")
    with b y cf False have "w' = w2" by (simp add: year_body_def)
    moreover from paper_loop_order [OF q pl] obtain evs where
      "trace w2 = trace ?w1 @ evs"
      "subseq (searched_newspapers evs) (map sort_key_of (get_data raw))"
      by blast
    ultimately show ?thesis using t1 by auto
  qed
qed

lemma sorted_by_value_sorted:
  assumes "sorted_by_value bs = Inr ss"
  shows "sorted (map sort_key_of ss) \<and> mset ss = mset bs
         \<and> (\<forall>k. filter (\<lambda>b. sort_key_of b = k) ss = filter (\<lambda>b. sort_key_of b = k) bs)"
proof -
  from assms have "ss = sort_key sort_key_of bs"
    by (auto simp: sorted_by_value_def split: if_splits)
  then show ?thesis by (simp add: sort_key_stable)
qed

text \<open>\<^verbatim>\<open>get_client\<close> is such an accessor.\<close>

lemma get_client_arg_quiet:
  "\<exists>evs. trace (snd (get_c (get_client_arg E) w)) = trace w @ evs
     \<and> searched_newspapers evs = [] \<and> faceted_ranges evs = []"
proof -
  have "trace (snd (get_client E w)) = trace w @ [ClockRead]
      \<or> trace (snd (get_client E w)) = trace w @ [ClockRead, LazyAcquire, ProviderCall]
      \<or> trace (snd (get_client E w))
          = trace w @ [ClockRead, LazyAcquire, ProviderCall, ProviderCall]"
    by (auto simp: get_client_def get_impresso_client_lazy_def get_impresso_client_def
          emit_def Let_def split: sum.splits)
  moreover have "snd (get_c (get_client_arg E) w) = snd (get_client E w)"
    by (cases "get_client E w") (simp add: get_client_arg_def)
  moreover have "searched_newspapers [ClockRead] = []" "faceted_ranges [ClockRead] = []"
    "searched_newspapers [ClockRead, LazyAcquire, ProviderCall] = []"
    "faceted_ranges [ClockRead, LazyAcquire, ProviderCall] = []"
    "searched_newspapers [ClockRead, LazyAcquire, ProviderCall, ProviderCall] = []"
    "faceted_ranges [ClockRead, LazyAcquire, ProviderCall, ProviderCall] = []"
    by (simp_all add: searched_newspapers_def faceted_ranges_def)
  ultimately show ?thesis by metis
qed

text \<open>
  Claim C4 fails for the newspapers: they are searched in the order in which the gateway
  returned them. With one UID asked for, the cell sampled is \<^verbatim>\<open>NZZ\<close> when the gateway
  returns \<^verbatim>\<open>NZZ\<close>, \<^verbatim>\<open>GDL\<close> and \<^verbatim>\<open>GDL\<close> when it returns \<^verbatim>\<open>GDL\<close>, \<^verbatim>\<open>NZZ\<close>.
\<close>

theorem newspapers_not_sorted_counterexample:
  "sample_impresso_uids fake_env (Client 7) ''agencyA'' None None 20 1 1 world0
     = (Inr [''NZZ-1920''],
        world0\<lparr>trace :=
          [FacetCall 7 ''year'' ''agencyA'' None 200,
           FacetCall 7 ''newspaper'' ''agencyA'' (Some (year_span ''1920'')) 200,
           FindCall 7 ''agencyA'' ''NZZ'' (year_span ''1920'') False 20, Sleep 1]\<rparr>)
   \<and> sample_impresso_uids swapped_env (Client 7) ''agencyA'' None None 20 1 1 world0
     = (Inr [''GDL-1920''],
        world0\<lparr>trace :=
          [FacetCall 7 ''year'' ''agencyA'' None 200,
           FacetCall 7 ''newspaper'' ''agencyA'' (Some (year_span ''1920'')) 200,
           FindCall 7 ''agencyA'' ''GDL'' (year_span ''1920'') False 20, Sleep 1]\<rparr>)"
  by code_simp

text \<open>
  Claim C4 as amended. The year buckets are sorted by value before the loop: what
  \<^verbatim>\<open>sorted\<close> returns is ascending by value, has the same buckets, and keeps buckets of
  equal value in the order of the gateway; the newspaper facet calls of the sampler are
  made in that order (their date ranges are a subsequence of the year ranges of the sorted
  buckets). The newspaper buckets are not sorted: the searches of one year are made in the
  order in which the gateway returned the newspapers (the newspapers searched after the
  newspaper facet call of a year are a subsequence of the values of the buckets of its
  answer). The accessor is one that adds nothing but its own events to the trace.
\<close>

theorem years_sorted_newspapers_as_returned:
  assumes quiet: "\<And>w. \<exists>evs. trace (snd (get_c cl w)) = trace w @ evs
                 \<and> searched_newspapers evs = [] \<and> faceted_ranges evs = []"
  shows "(sorted_by_value bs = Inr ss \<longrightarrow>
            sorted (map sort_key_of ss) \<and> mset ss = mset bs
            \<and> (\<forall>k. filter (\<lambda>b. sort_key_of b = k) ss = filter (\<lambda>b. sort_key_of b = k) bs))
     \<and> (0 < lpq \<and> lpq \<le> 100 \<and> initial_range E sd ed = Inr idr
          \<and> get_c cl w = (Inr c, w0)
          \<and> o_facet E (trace w0 @ [FacetCall c ''year'' keyword idr 200])
              = Inr raw
          \<and> sorted_by_value (get_data raw) = Inr ys
          \<and> sample_impresso_uids E cl keyword sd ed lpq mh delay w = (r, w') \<longrightarrow>
          (\<exists>evs. trace w'
                    = trace w0 @ FacetCall c ''year'' keyword idr 200 # evs
             \<and> subseq (faceted_ranges evs)
                  (map (\<lambda>b. Some (year_span (sort_key_of b))) ys)))
     \<and> (paper_loop E cl keyword dr lpq mh delay ps acc w1 = (f, w2) \<longrightarrow>
          (\<exists>evs. trace w2 = trace w1 @ evs
             \<and> subseq (searched_newspapers evs) (map sort_key_of ps)))
     \<and> (b_value yb = Some year \<and> year \<noteq> [] \<and> year_range E year = Inr ydr
          \<and> get_c cl w3 = (Inr c', w4)
          \<and> o_facet E (trace w4 @ [FacetCall c' ''newspaper'' keyword (Some ydr) 200])
              = Inr nraw
          \<and> year_body E cl keyword lpq mh delay yb yacc w3 = (yr, w5) \<longrightarrow>
          (\<exists>evs. trace w5
                    = trace w4 @ FacetCall c' ''newspaper'' keyword (Some ydr) 200 # evs
             \<and> subseq (searched_newspapers evs) (map sort_key_of (get_data nraw))))"
proof -
  have a: "sorted_by_value bs = Inr ss \<longrightarrow>
            sorted (map sort_key_of ss) \<and> mset ss = mset bs
            \<and> (\<forall>k. filter (\<lambda>b. sort_key_of b = k) ss = filter (\<lambda>b. sort_key_of b = k) bs)"
    using sorted_by_value_sorted by blast
  have b: "0 < lpq \<and> lpq \<le> 100 \<and> initial_range E sd ed = Inr idr
          \<and> get_c cl w = (Inr c, w0)
          \<and> o_facet E (trace w0 @ [FacetCall c ''year'' keyword idr 200])
              = Inr raw
          \<and> sorted_by_value (get_data raw) = Inr ys
          \<and> sample_impresso_uids E cl keyword sd ed lpq mh delay w = (r, w') \<longrightarrow>
          (\<exists>evs. trace w'
                    = trace w0 @ FacetCall c ''year'' keyword idr 200 # evs
             \<and> subseq (faceted_ranges evs)
                  (map (\<lambda>b. Some (year_span (sort_key_of b))) ys))"
    using sample_order [OF quiet] by blast
  have c: "paper_loop E cl keyword dr lpq mh delay ps acc w1 = (f, w2) \<longrightarrow>
          (\<exists>evs. trace w2 = trace w1 @ evs
             \<and> subseq (searched_newspapers evs) (map sort_key_of ps))"
    using paper_loop_order [OF quiet] by blast
  have d: "b_value yb = Some year \<and> year \<noteq> [] \<and> year_range E year = Inr ydr
          \<and> get_c cl w3 = (Inr c', w4)
          \<and> o_facet E (trace w4 @ [FacetCall c' ''newspaper'' keyword (Some ydr) 200])
              = Inr nraw
          \<and> year_body E cl keyword lpq mh delay yb yacc w3 = (yr, w5) \<longrightarrow>
          (\<exists>evs. trace w5
                    = trace w4 @ FacetCall c' ''newspaper'' keyword (Some ydr) 200 # evs
             \<and> subseq (searched_newspapers evs) (map sort_key_of (get_data nraw)))"
    using year_body_searches_as_returned [OF quiet] by blast
  show ?thesis by (rule conjI [OF a conjI [OF b conjI [OF c d]]])
qed

theorem years_sorted_newspapers_as_returned_witness:
  "(\<exists>evs. trace (snd (get_c (Client 7) world0)) = trace world0 @ evs
       \<and> searched_newspapers evs = [] \<and> faceted_ranges evs = [])
   \<and> sorted_by_value [Bucket (Some ''1921'') 1, Bucket (Some ''1920'') 1]
       = Inr [Bucket (Some ''1920'') 1, Bucket (Some ''1921'') 1]
   \<and> sorted (map sort_key_of [Bucket (Some ''1920'') 1, Bucket (Some ''1921'') 1])
   \<and> (0::int) < 20 \<and> (20::int) \<le> 100 \<and> initial_range fake_env None None = Inr None
   \<and> get_c (Client 7) world0 = (Inr 7, world0)
   \<and> o_facet fake_env
        (trace world0 @ [FacetCall 7 ''year'' ''agencyA'' None 200])
       = Inr (Some [Bucket (Some ''1921'') 1, Bucket (Some ''1920'') 1])
   \<and> (\<exists>evs. trace (snd (sample_impresso_uids fake_env (Client 7) ''agencyA'' None None
                          20 20 1 world0))
               = trace world0
                   @ FacetCall 7 ''year'' ''agencyA'' None 200 # evs
          \<and> subseq (faceted_ranges evs)
               [Some (year_span ''1920''), Some (year_span ''1921'')])
   \<and> (\<exists>evs. trace (snd (paper_loop fake_env (Client 7) ''agencyA'' (year_span ''1920'')
                          20 20 1 [Bucket (Some ''NZZ'') 1, Bucket (Some ''GDL'') 1]
                          ([], 0) world0))
               = trace world0 @ evs
          \<and> subseq (searched_newspapers evs) [''NZZ'', ''GDL''])
   \<and> b_value (Bucket (Some ''1920'') 1) = Some ''1920'' \<and> ''1920'' \<noteq> []
   \<and> year_range fake_env ''1920'' = Inr (year_span ''1920'')
   \<and> o_facet fake_env
        (trace world0
           @ [FacetCall 7 ''newspaper'' ''agencyA'' (Some (year_span ''1920'')) 200])
       = Inr (Some [Bucket (Some ''NZZ'') 1, Bucket (Some ''GDL'') 1])
   \<and> (\<exists>evs. trace (snd (year_body fake_env (Client 7) ''agencyA'' 20 20 1
                          (Bucket (Some ''1920'') 1) ([], 0) world0))
               = trace world0
                   @ FacetCall 7 ''newspaper'' ''agencyA'' (Some (year_span ''1920'')) 200
                   # evs
          \<and> subseq (searched_newspapers evs) [''NZZ'', ''GDL''])"
proof -
  have q: "\<exists>evs. trace (snd (get_c (Client 7) w)) = trace w @ evs
       \<and> searched_newspapers evs = [] \<and> faceted_ranges evs = []" for w
    by (simp add: searched_newspapers_def faceted_ranges_def)
  have s: "sorted_by_value [Bucket (Some ''1921'') 1, Bucket (Some ''1920'') 1]
       = Inr [Bucket (Some ''1920'') 1, Bucket (Some ''1921'') 1]"
    by code_simp
  have o: "o_facet fake_env
        (trace world0 @ [FacetCall 7 ''year'' ''agencyA'' None 200])
       = Inr (Some [Bucket (Some ''1921'') 1, Bucket (Some ''1920'') 1])"
    by (simp add: fake_env_def fake_facet_def)
  have g: "get_c (Client 7) world0 = (Inr 7, world0)" by simp
  have i: "initial_range fake_env None None = Inr None"
    by (simp add: initial_range_def)
  note t = years_sorted_newspapers_as_returned [of "Client 7", OF q,
      where bs = "[Bucket (Some ''1921'') 1, Bucket (Some ''1920'') 1]"
        and ss = "[Bucket (Some ''1920'') 1, Bucket (Some ''1921'') 1]"
        and lpq = 20 and w = world0 and c = 7 and ?w0.0 = world0 and E = fake_env
        and keyword = "''agencyA''" and sd = None and ed = None and idr = None
        and raw = "Some [Bucket (Some ''1921'') 1, Bucket (Some ''1920'') 1]"
        and ys = "[Bucket (Some ''1920'') 1, Bucket (Some ''1921'') 1]"
        and mh = 20 and delay = 1
        and r = "fst (sample_impresso_uids fake_env (Client 7) ''agencyA'' None None
                          20 20 1 world0)"
        and w' = "snd (sample_impresso_uids fake_env (Client 7) ''agencyA'' None None
                          20 20 1 world0)"
        and dr = "year_span ''1920''"
        and ps = "[Bucket (Some ''NZZ'') 1, Bucket (Some ''GDL'') 1]"
        and acc = "([], 0)" and ?w1.0 = world0
        and f = "fst (paper_loop fake_env (Client 7) ''agencyA'' (year_span ''1920'')
                          20 20 1 [Bucket (Some ''NZZ'') 1, Bucket (Some ''GDL'') 1]
                          ([], 0) world0)"
        and ?w2.0 = "snd (paper_loop fake_env (Client 7) ''agencyA'' (year_span ''1920'')
                          20 20 1 [Bucket (Some ''NZZ'') 1, Bucket (Some ''GDL'') 1]
                          ([], 0) world0)"
        and yb = "Bucket (Some ''1920'') 1" and year = "''1920''"
        and ydr = "year_span ''1920''" and ?w3.0 = world0 and c' = 7 and ?w4.0 = world0
        and nraw = "Some [Bucket (Some ''NZZ'') 1, Bucket (Some ''GDL'') 1]"
        and yacc = "([], 0)"
        and yr = "fst (year_body fake_env (Client 7) ''agencyA'' 20 20 1
                          (Bucket (Some ''1920'') 1) ([], 0) world0)"
        and ?w5.0 = "snd (year_body fake_env (Client 7) ''agencyA'' 20 20 1
                          (Bucket (Some ''1920'') 1) ([], 0) world0)"]
  have yr: "year_range fake_env ''1920'' = Inr (year_span ''1920'')"
    by code_simp
  have no: "o_facet fake_env
        (trace world0
           @ [FacetCall 7 ''newspaper'' ''agencyA'' (Some (year_span ''1920'')) 200])
       = Inr (Some [Bucket (Some ''NZZ'') 1, Bucket (Some ''GDL'') 1])"
    by (simp add: fake_env_def fake_facet_def)
  have c4: "\<exists>evs. trace (snd (year_body fake_env (Client 7) ''agencyA'' 20 20 1
                          (Bucket (Some ''1920'') 1) ([], 0) world0))
               = trace world0
                   @ FacetCall 7 ''newspaper'' ''agencyA'' (Some (year_span ''1920'')) 200
                   # evs
          \<and> subseq (searched_newspapers evs) [''NZZ'', ''GDL'']"
    using t yr no g by (simp add: sort_key_of_def)
  have c1: "sorted (map sort_key_of [Bucket (Some ''1920'') 1, Bucket (Some ''1921'') 1])"
    using t s by blast
  have c2: "\<exists>evs. trace (snd (sample_impresso_uids fake_env (Client 7) ''agencyA'' None None
                          20 20 1 world0))
               = trace world0
                   @ FacetCall 7 ''year'' ''agencyA'' None 200 # evs
          \<and> subseq (faceted_ranges evs)
               [Some (year_span ''1920''), Some (year_span ''1921'')]"
    using t s o g i by (simp add: sort_key_of_def)
  have c3: "\<exists>evs. trace (snd (paper_loop fake_env (Client 7) ''agencyA'' (year_span ''1920'')
                          20 20 1 [Bucket (Some ''NZZ'') 1, Bucket (Some ''GDL'') 1]
                          ([], 0) world0))
               = trace world0 @ evs
          \<and> subseq (searched_newspapers evs) [''NZZ'', ''GDL'']"
    using t by (simp add: sort_key_of_def)
  from q [of world0] s c1 i g o c2 c3 yr no c4 show ?thesis by simp
qed

section \<open>Refreshing the client\<close>

text \<open>
  Claim C8 fails for the count of acquisitions and for the failing acquisition: the call
  of \<^verbatim>\<open>get_client\<close> that refreshes calls \<^verbatim>\<open>_get_impresso_client_lazy\<close>, which calls
  the session provider \<^verbatim>\<open>get_impresso_client\<close> a second time when the first call
  raises. With a provider that always fails, one call of \<^verbatim>\<open>get_client\<close> makes two
  provider calls; with a provider whose first call fails and whose second call gives the
  session 9, the session returned is 9 and not the one held before.
\<close>

theorem provider_called_twice_counterexample:
  "client stale_world = 5
   \<and> get_client provider_down_env stale_world
       = (5, stale_world\<lparr>trace := [ClockRead, LazyAcquire, ProviderCall, ProviderCall],
                         last_refresh := 1\<rparr>)
   \<and> count_list [ClockRead, LazyAcquire, ProviderCall, ProviderCall] ProviderCall = 2
   \<and> o_provider provider_flaky_env [ClockRead, LazyAcquire, ProviderCall]
       = Inl OtherException
   \<and> get_client provider_flaky_env stale_world
       = (9, stale_world\<lparr>trace := [ClockRead, LazyAcquire, ProviderCall, ProviderCall],
                         client := 9, last_refresh := 1\<rparr>)"
  by (simp add: get_client_def get_impresso_client_lazy_def get_impresso_client_def
        provider_down_env_def provider_flaky_env_def fake_env_def stale_world_def
        world0_def emit_def Let_def
        CLIENT_REFRESH_INTERVAL_SECONDS_def CLIENT_REFRESH_HINT_INTERVAL_SECONDS_def)

text \<open>
  Claim C8 as amended. Let \<open>now\<close> be the clock reading of the call of \<^verbatim>\<open>get_client\<close>.
  While \<open>now - last_refresh\<close> is below the interval, the call adds only the clock reading
  to the trace, so it calls neither \<^verbatim>\<open>_get_impresso_client_lazy\<close> nor the session
  provider, and it returns the held client, which stays held. Otherwise it calls
  \<^verbatim>\<open>_get_impresso_client_lazy\<close> exactly once and sets \<open>last_refresh\<close> to \<open>now\<close>, so
  the calls of the next interval refresh nothing. That one call calls the session provider
  once when the provider gives a client, and twice when its first call raises; the client
  of the first provider call that succeeds is returned and held, and when both provider
  calls raise, the client held before is returned and stays held.
\<close>

theorem get_client_refresh:
  assumes "get_client E w = (s, w')"
    and "now = o_time E (trace w @ [ClockRead])"
    and "p1 = o_provider E (trace w @ [ClockRead, LazyAcquire, ProviderCall])"
    and "p2 = o_provider E (trace w @ [ClockRead, LazyAcquire, ProviderCall, ProviderCall])"
  shows "(now - last_refresh w < CLIENT_REFRESH_INTERVAL_SECONDS \<longrightarrow>
            trace w' = trace w @ [ClockRead] \<and> s = client w \<and> client w' = client w
            \<and> last_refresh w' = last_refresh w)
     \<and> (now - last_refresh w \<ge> CLIENT_REFRESH_INTERVAL_SECONDS \<longrightarrow>
            count_list (trace w') LazyAcquire = count_list (trace w) LazyAcquire + 1
            \<and> count_list (trace w') ProviderCall
                = count_list (trace w) ProviderCall + (case p1 of Inr c \<Rightarrow> 1 | Inl e1 \<Rightarrow> 2)
            \<and> last_refresh w' = now \<and> client w' = s
            \<and> (case p1 of
                  Inr c \<Rightarrow> s = c \<and> trace w' = trace w @ [ClockRead, LazyAcquire, ProviderCall]
                | Inl e1 \<Rightarrow>
                    trace w' = trace w @ [ClockRead, LazyAcquire, ProviderCall, ProviderCall]
                    \<and> (case p2 of Inr c \<Rightarrow> s = c | Inl e2 \<Rightarrow> s = client w)))"
  using assms
  by (auto simp: get_client_def get_impresso_client_lazy_def get_impresso_client_def
        emit_def Let_def split: sum.splits if_splits)

theorem get_client_refresh_witness:
  "get_client fake_env world0
     = (0, world0\<lparr>trace := [ClockRead]\<rparr>)
   \<and> o_time fake_env (trace world0 @ [ClockRead]) - last_refresh world0
       < CLIENT_REFRESH_INTERVAL_SECONDS
   \<and> client world0 = 0
   \<and> get_client provider_down_env stale_world
     = (5, stale_world\<lparr>trace := [ClockRead, LazyAcquire, ProviderCall, ProviderCall],
                       last_refresh := 1\<rparr>)
   \<and> o_time provider_down_env (trace stale_world @ [ClockRead]) - last_refresh stale_world
       \<ge> CLIENT_REFRESH_INTERVAL_SECONDS
   \<and> o_provider provider_down_env
        (trace stale_world @ [ClockRead, LazyAcquire, ProviderCall]) = Inl OtherException
   \<and> o_provider provider_down_env
        (trace stale_world @ [ClockRead, LazyAcquire, ProviderCall, ProviderCall])
       = Inl OtherException
   \<and> client stale_world = 5
   \<and> count_list [ClockRead, LazyAcquire, ProviderCall, ProviderCall] LazyAcquire
       = count_list (trace stale_world) LazyAcquire + 1
   \<and> count_list [ClockRead, LazyAcquire, ProviderCall, ProviderCall] ProviderCall
       = count_list (trace stale_world) ProviderCall + 2
   \<and> get_client fake_env stale_world
     = (3, stale_world\<lparr>trace := [ClockRead, LazyAcquire, ProviderCall],
                       client := 3, last_refresh := 1\<rparr>)
   \<and> o_provider fake_env (trace stale_world @ [ClockRead, LazyAcquire, ProviderCall]) = Inr 3"
proof -
  have a: "get_client fake_env world0 = (0, world0\<lparr>trace := [ClockRead]\<rparr>)"
    by (simp add: get_client_def fake_env_def world0_def emit_def Let_def
          CLIENT_REFRESH_INTERVAL_SECONDS_def CLIENT_REFRESH_HINT_INTERVAL_SECONDS_def)
  have b: "get_client provider_down_env stale_world
     = (5, stale_world\<lparr>trace := [ClockRead, LazyAcquire, ProviderCall, ProviderCall],
                       last_refresh := 1\<rparr>)"
    by (simp add: get_client_def get_impresso_client_lazy_def get_impresso_client_def
          provider_down_env_def fake_env_def stale_world_def world0_def emit_def Let_def
          CLIENT_REFRESH_INTERVAL_SECONDS_def CLIENT_REFRESH_HINT_INTERVAL_SECONDS_def)
  have c: "get_client fake_env stale_world
     = (3, stale_world\<lparr>trace := [ClockRead, LazyAcquire, ProviderCall],
                       client := 3, last_refresh := 1\<rparr>)"
    by (simp add: get_client_def get_impresso_client_lazy_def get_impresso_client_def
          fake_env_def stale_world_def world0_def emit_def Let_def
          CLIENT_REFRESH_INTERVAL_SECONDS_def CLIENT_REFRESH_HINT_INTERVAL_SECONDS_def)
  have ta: "o_time fake_env (trace world0 @ [ClockRead]) - last_refresh world0
       < CLIENT_REFRESH_INTERVAL_SECONDS"
    by (simp add: fake_env_def world0_def CLIENT_REFRESH_INTERVAL_SECONDS_def)
  have tb: "o_time provider_down_env (trace stale_world @ [ClockRead])
         - last_refresh stale_world \<ge> CLIENT_REFRESH_INTERVAL_SECONDS"
    by (simp add: provider_down_env_def fake_env_def stale_world_def world0_def
          CLIENT_REFRESH_INTERVAL_SECONDS_def)
  have pb: "o_provider provider_down_env
        (trace stale_world @ [ClockRead, LazyAcquire, ProviderCall]) = Inl OtherException"
    "o_provider provider_down_env
        (trace stale_world @ [ClockRead, LazyAcquire, ProviderCall, ProviderCall])
       = Inl OtherException"
    by (simp_all add: provider_down_env_def fake_env_def)
  have pc: "o_provider fake_env (trace stale_world @ [ClockRead, LazyAcquire, ProviderCall])
       = Inr 3"
    by (simp add: fake_env_def stale_world_def world0_def)
  have cl: "client world0 = 0" "client stale_world = 5"
    by (simp_all add: stale_world_def world0_def)
  have n: "count_list [ClockRead, LazyAcquire, ProviderCall, ProviderCall] LazyAcquire
       = count_list (trace stale_world) LazyAcquire + 1"
    "count_list [ClockRead, LazyAcquire, ProviderCall, ProviderCall] ProviderCall
       = count_list (trace stale_world) ProviderCall + 2"
    using get_client_refresh [OF b refl refl refl] tb pb by simp_all
  have "client (world0\<lparr>trace := [ClockRead]\<rparr>) = client world0"
    using get_client_refresh [OF a refl refl refl] ta by simp
  with a b c ta tb pb pc cl n show ?thesis by simp
qed

section \<open>Properties of the campaign loop\<close>

lemma dict_get_set: "dict_get (dict_set d k v) k' = (if k' = k then Some v else dict_get d k')"
  by (induction d) (auto simp: dict_get_def)

lemma keys_dict_set: "fst ` set (dict_set d k v) = insert k (fst ` set d)"
proof (induction d)
  case Nil
  show ?case by simp
next
  case (Cons a d)
  obtain k' v' where a: "a = (k', v')" by (cases a)
  show ?case
  proof (cases "k' = k")
    case True
    with a show ?thesis by simp
  next
    case False
    with a Cons.IH show ?thesis by (simp add: insert_commute)
  qed
qed

lemma already_done_key: "already_done d k \<Longrightarrow> k \<in> fst ` set d"
  by (auto simp: already_done_def dict_get_def split: option.splits list.splits
        dest: map_of_SomeD intro: rev_image_eqI)

text \<open>
  Remote calls carry the keyword as their term, so sampling one keyword adds no call for
  another one, as long as the accessor adds none.
\<close>

lemma calls_for_emit:
  "calls_for k (emit ev w) = calls_for k w @ (if is_call_for k ev then [ev] else [])"
  by (simp add: calls_for_def emit_def)

lemma call_facet_calls_for:
  assumes "\<And>w. calls_for K (snd (get_c cl w)) = calls_for K w" "k \<noteq> K"
  shows "calls_for K (snd (call_facet E cl dimension k dr w)) = calls_for K w"
  using assms(1) [of w] assms(2)
  by (auto simp: call_facet_def Let_def calls_for_emit split: prod.splits sum.splits)

lemma call_find_calls_for:
  assumes "\<And>w. calls_for K (snd (get_c cl w)) = calls_for K w" "k \<noteq> K"
  shows "calls_for K (snd (call_find E cl k np dr lpq w)) = calls_for K w"
  using assms(1) [of w] assms(2)
  by (auto simp: call_find_def Let_def calls_for_emit split: prod.splits sum.splits)

lemma paper_body_calls_for:
  assumes "\<And>w. calls_for K (snd (get_c cl w)) = calls_for K w" "k \<noteq> K"
  shows "calls_for K (snd (paper_body E cl k dr lpq mh delay p acc w)) = calls_for K w"
proof -
  have "calls_for K w1 = calls_for K w"
    if "call_find E cl k np dr lpq w = (r, w1)" for np r w1
    using call_find_calls_for [OF assms, of E np dr lpq w] that by simp
  then show ?thesis
    by (auto simp: paper_body_def Let_def calls_for_emit
          split: option.splits prod.splits sum.splits)
qed

lemma paper_loop_calls_for:
  assumes "\<And>w. calls_for K (snd (get_c cl w)) = calls_for K w" "k \<noteq> K"
  shows "calls_for K (snd (paper_loop E cl k dr lpq mh delay ps acc w)) = calls_for K w"
proof (induction ps arbitrary: acc w)
  case Nil
  show ?case by simp
next
  case (Cons p ps)
  obtain g w1 where b: "paper_body E cl k dr lpq mh delay p acc w = (g, w1)"
    by (cases "paper_body E cl k dr lpq mh delay p acc w")
  have "calls_for K w1 = calls_for K w"
    using paper_body_calls_for [OF assms, of E dr lpq mh delay p acc w] b by simp
  then show ?case using b Cons.IH by (cases g) simp_all
qed

lemma year_body_calls_for:
  assumes "\<And>w. calls_for K (snd (get_c cl w)) = calls_for K w" "k \<noteq> K"
  shows "calls_for K (snd (year_body E cl k lpq mh delay yb acc w)) = calls_for K w"
proof -
  have f: "calls_for K w1 = calls_for K w"
    if "call_facet E cl ''newspaper'' k dr w = (r, w1)" for dr r w1
    using call_facet_calls_for [OF assms, of E "''newspaper''" dr w] that by simp
  have l: "calls_for K w2 = calls_for K w1"
    if "paper_loop E cl k dr lpq mh delay ps acc w1 = (r, w2)" for dr ps r w1 w2
    using paper_loop_calls_for [OF assms, of E dr lpq mh delay ps acc w1] that by simp
  show ?thesis
    by (auto simp: year_body_def Let_def split: option.splits prod.splits sum.splits
          dest!: f l)
qed

lemma year_loop_calls_for:
  assumes "\<And>w. calls_for K (snd (get_c cl w)) = calls_for K w" "k \<noteq> K"
  shows "calls_for K (snd (year_loop E cl k lpq mh delay ybs acc w)) = calls_for K w"
proof (induction ybs arbitrary: acc w)
  case Nil
  show ?case by simp
next
  case (Cons yb ybs)
  obtain g w1 where b: "year_body E cl k lpq mh delay yb acc w = (g, w1)"
    by (cases "year_body E cl k lpq mh delay yb acc w")
  have "calls_for K w1 = calls_for K w"
    using year_body_calls_for [OF assms, of E lpq mh delay yb acc w] b by simp
  then show ?case using b Cons.IH by (auto split: sum.splits flow.splits)
qed

lemma sample_calls_for:
  assumes "\<And>w. calls_for K (snd (get_c cl w)) = calls_for K w" "k \<noteq> K"
  shows "calls_for K (snd (sample_impresso_uids E cl k sd ed lpq mh delay w)) = calls_for K w"
proof -
  have f: "calls_for K w1 = calls_for K w"
    if "call_facet E cl ''year'' k dr w = (r, w1)" for dr r w1
    using call_facet_calls_for [OF assms, of E "''year''" dr w] that by simp
  have l: "calls_for K w2 = calls_for K w1"
    if "year_loop E cl k lpq mh delay ybs acc w1 = (r, w2)" for ybs acc r w1 w2
    using year_loop_calls_for [OF assms, of E lpq mh delay ybs acc w1] that by simp
  show ?thesis
    by (auto simp: sample_impresso_uids_def Let_def split: prod.splits sum.splits
          dest!: f l)
qed

lemma get_client_calls_for: "calls_for K (snd (get_client E w)) = calls_for K w"
  by (auto simp: get_client_def get_impresso_client_lazy_def get_impresso_client_def
        emit_def calls_for_def Let_def split: sum.splits)

lemma get_client_arg_calls_for:
  "calls_for K (snd (get_c (get_client_arg E) w)) = calls_for K w"
  using get_client_calls_for [of K E w]
  by (cases "get_client E w") (simp add: get_client_arg_def)

lemma persist_calls_for: "calls_for K (persist E d w) = calls_for K w"
  by (auto simp: persist_def emit_def calls_for_def Let_def split: write_outcome.splits)

lemma agency_body_done:
  assumes "already_done d K" "agency_body E sd ed lpq mh delay agency d w = (d', w')"
  shows "dict_get d' K = dict_get d K \<and> calls_for K w' = calls_for K w"
proof (cases "already_done d agency")
  case True
  with assms(2) show ?thesis by (simp add: agency_body_def)
next
  case False
  with assms(1) have ne: "agency \<noteq> K" by auto
  obtain r w1 where s: "sample_impresso_uids E (get_client_arg E) agency sd ed lpq mh delay w
      = (r, w1)"
    by (cases "sample_impresso_uids E (get_client_arg E) agency sd ed lpq mh delay w")
  have "calls_for K w1 = calls_for K w"
    using sample_calls_for [of K "get_client_arg E" agency E sd ed lpq mh delay w,
        OF get_client_arg_calls_for ne] s by simp
  with assms(2) False s ne show ?thesis
    by (auto simp: agency_body_def Let_def dict_get_set persist_calls_for)
qed

lemma agency_loop_done:
  assumes "already_done d K" "agency_loop E sd ed lpq mh delay agencies d w = (d', w')"
  shows "dict_get d' K = dict_get d K \<and> calls_for K w' = calls_for K w"
  using assms
proof (induction agencies arbitrary: d w)
  case Nil
  then show ?case by simp
next
  case (Cons agency agencies)
  obtain d1 w1 where b: "agency_body E sd ed lpq mh delay agency d w = (d1, w1)"
    by (cases "agency_body E sd ed lpq mh delay agency d w")
  from agency_body_done [OF Cons.prems(1) b]
  have k: "dict_get d1 K = dict_get d K" "calls_for K w1 = calls_for K w" by simp_all
  with Cons.prems(1) have "already_done d1 K" by (simp add: already_done_def)
  moreover from Cons.prems(2) b
  have "agency_loop E sd ed lpq mh delay agencies d1 w1 = (d', w')" by simp
  ultimately show ?case using Cons.IH k by metis
qed

text \<open>The loop never stops early: afterwards every agency of the list has an entry.\<close>

lemma agency_body_keys:
  assumes "agency_body E sd ed lpq mh delay agency d w = (d', w')"
  shows "fst ` set d' = insert agency (fst ` set d)"
proof (cases "already_done d agency")
  case True
  with assms already_done_key [OF True] show ?thesis by (auto simp: agency_body_def)
next
  case False
  obtain r w1 where "sample_impresso_uids E (get_client_arg E) agency sd ed lpq mh delay w
      = (r, w1)"
    by (cases "sample_impresso_uids E (get_client_arg E) agency sd ed lpq mh delay w")
  with assms False
  have "d' = dict_set d agency (case r of Inr doc_ids \<Rightarrow> doc_ids | Inl e \<Rightarrow> [])"
    by (simp add: agency_body_def Let_def)
  then show ?thesis by (simp only: keys_dict_set)
qed

lemma agency_loop_keys:
  assumes "agency_loop E sd ed lpq mh delay agencies d w = (d', w')"
  shows "fst ` set d' = set agencies \<union> fst ` set d"
  using assms
proof (induction agencies arbitrary: d w)
  case Nil
  then show ?case by simp
next
  case (Cons agency agencies)
  obtain d1 w1 where b: "agency_body E sd ed lpq mh delay agency d w = (d1, w1)"
    by (cases "agency_body E sd ed lpq mh delay agency d w")
  with Cons.prems have "agency_loop E sd ed lpq mh delay agencies d1 w1 = (d', w')" by simp
  from Cons.IH [OF this] agency_body_keys [OF b] show ?case by auto
qed

text \<open>
  Claim C5. When the loaded results map \<open>K\<close> to a non-empty list, the pass of the loop
  for \<open>K\<close> changes neither the results nor the world: no sampler call, no remote call, no
  save; the loop goes on with the rest. Over a whole run, whatever the list of agencies,
  the entry of \<open>K\<close> is at the end what it was and the trace has no further remote call for
  the term \<open>K\<close>.
\<close>

theorem done_agency_skipped:
  assumes "already_done d K"
  shows "agency_body E sd ed lpq mh delay K d w = (d, w)
     \<and> agency_loop E sd ed lpq mh delay (K # rest) d w
         = agency_loop E sd ed lpq mh delay rest d w
     \<and> (agency_loop E sd ed lpq mh delay agencies d w = (d', w') \<longrightarrow>
          dict_get d' K = dict_get d K \<and> calls_for K w' = calls_for K w)"
proof -
  have a: "agency_body E sd ed lpq mh delay K d w = (d, w)"
    using assms by (simp add: agency_body_def)
  then have b: "agency_loop E sd ed lpq mh delay (K # rest) d w
         = agency_loop E sd ed lpq mh delay rest d w"
    by simp
  have c: "agency_loop E sd ed lpq mh delay agencies d w = (d', w') \<longrightarrow>
          dict_get d' K = dict_get d K \<and> calls_for K w' = calls_for K w"
    using agency_loop_done [OF assms] by blast
  show ?thesis by (rule conjI [OF a conjI [OF b c]])
qed

theorem done_agency_skipped_witness:
  "already_done [(''agencyA'', [''NZZ-1920''])] ''agencyA''
   \<and> agency_body fake_env None None 20 20 1 ''agencyA'' [(''agencyA'', [''NZZ-1920''])] world0
       = ([(''agencyA'', [''NZZ-1920''])], world0)
   \<and> fst (agency_loop fake_env None None 20 20 1 [''agencyB'', ''agencyA'', ''agencyC'']
            [(''agencyA'', [''NZZ-1920''])] world0)
       = [(''agencyA'', [''NZZ-1920'']), (''agencyB'', []), (''agencyC'', [])]
   \<and> dict_get (fst (agency_loop fake_env None None 20 20 1
                      [''agencyB'', ''agencyA'', ''agencyC'']
                      [(''agencyA'', [''NZZ-1920''])] world0)) ''agencyA''
       = Some [''NZZ-1920'']
   \<and> calls_for ''agencyA'' (snd (agency_loop fake_env None None 20 20 1
                      [''agencyB'', ''agencyA'', ''agencyC'']
                      [(''agencyA'', [''NZZ-1920''])] world0))
       = []"
proof -
  have h: "already_done [(''agencyA'', [''NZZ-1920''])] ''agencyA''"
    by (simp add: already_done_def dict_get_def)
  have e: "fst (agency_loop fake_env None None 20 20 1 [''agencyB'', ''agencyA'', ''agencyC'']
            [(''agencyA'', [''NZZ-1920''])] world0)
       = [(''agencyA'', [''NZZ-1920'']), (''agencyB'', []), (''agencyC'', [])]"
    by code_simp
  have z: "calls_for ''agencyA'' world0 = []"
    by (simp add: calls_for_def world0_def)
  have g: "dict_get [(''agencyA'', [''NZZ-1920''])] ''agencyA'' = Some [''NZZ-1920'']"
    by (simp add: dict_get_def)
  note t = done_agency_skipped [OF h, where E = fake_env and sd = None and ed = None
      and lpq = 20 and mh = 20 and delay = 1 and w = world0
      and agencies = "[''agencyB'', ''agencyA'', ''agencyC'']"
      and d' = "fst (agency_loop fake_env None None 20 20 1
                      [''agencyB'', ''agencyA'', ''agencyC'']
                      [(''agencyA'', [''NZZ-1920''])] world0)"
      and w' = "snd (agency_loop fake_env None None 20 20 1
                      [''agencyB'', ''agencyA'', ''agencyC'']
                      [(''agencyA'', [''NZZ-1920''])] world0)"]
  have p: "agency_loop fake_env None None 20 20 1 [''agencyB'', ''agencyA'', ''agencyC'']
              [(''agencyA'', [''NZZ-1920''])] world0
       = (fst (agency_loop fake_env None None 20 20 1
                      [''agencyB'', ''agencyA'', ''agencyC'']
                      [(''agencyA'', [''NZZ-1920''])] world0),
          snd (agency_loop fake_env None None 20 20 1
                      [''agencyB'', ''agencyA'', ''agencyC'']
                      [(''agencyA'', [''NZZ-1920''])] world0))"
    by (rule prod.collapse [symmetric])
  from t have a: "agency_body fake_env None None 20 20 1 ''agencyA''
       [(''agencyA'', [''NZZ-1920''])] world0 = ([(''agencyA'', [''NZZ-1920''])], world0)"
    by (rule conjunct1)
  from t have "dict_get (fst (agency_loop fake_env None None 20 20 1
                      [''agencyB'', ''agencyA'', ''agencyC'']
                      [(''agencyA'', [''NZZ-1920''])] world0)) ''agencyA''
       = dict_get [(''agencyA'', [''NZZ-1920''])] ''agencyA''
     \<and> calls_for ''agencyA'' (snd (agency_loop fake_env None None 20 20 1
                      [''agencyB'', ''agencyA'', ''agencyC'']
                      [(''agencyA'', [''NZZ-1920''])] world0))
       = calls_for ''agencyA'' world0"
    by (rule mp [OF conjunct2 [OF conjunct2] p])
  then have c1: "dict_get (fst (agency_loop fake_env None None 20 20 1
                      [''agencyB'', ''agencyA'', ''agencyC'']
                      [(''agencyA'', [''NZZ-1920''])] world0)) ''agencyA''
       = Some [''NZZ-1920'']"
    and c2: "calls_for ''agencyA'' (snd (agency_loop fake_env None None 20 20 1
                      [''agencyB'', ''agencyA'', ''agencyC'']
                      [(''agencyA'', [''NZZ-1920''])] world0))
       = []"
    by (simp_all only: g z)
  show ?thesis by (rule conjI [OF h conjI [OF a conjI [OF e conjI [OF c1 c2]]]])
qed
text \<open>
  Claim C6 fails for the save: the write of the checkpoint file is inside a \<^verbatim>\<open>try\<close>
  whose handler only logs. With the sampler raising for \<^verbatim>\<open>agencyA\<close> and a file that
  cannot be opened for writing, the entry of \<^verbatim>\<open>agencyA\<close> is recorded in memory, and the
  file is what it was, without that entry.
\<close>

theorem failed_write_not_persisted_counterexample:
  "fst (sample_impresso_uids facet_down_locked_env (get_client_arg facet_down_locked_env)
          ''agencyA'' None None 20 20 1 saved_world)
     = Inl (Raised TransientQueryError)
   \<and> fst (agency_body facet_down_locked_env None None 20 20 1 ''agencyA'' [] saved_world)
       = [(''agencyA'', [])]
   \<and> out_file (snd (agency_body facet_down_locked_env None None 20 20 1 ''agencyA'' []
                      saved_world))
       = Some ''{}''
   \<and> out_file (snd (agency_body facet_down_locked_env None None 20 20 1 ''agencyA'' []
                      saved_world))
       \<noteq> Some (json_dumps [(''agencyA'', [])])
   \<and> fst (agency_loop facet_down_locked_env None None 20 20 1 [''agencyA'', ''agencyB''] []
            saved_world)
       = [(''agencyA'', []), (''agencyB'', [])]"
  by code_simp

text \<open>
  Claim C6 as amended. When the sampler raises for an agency \<open>K\<close> that is not yet done,
  the pass of the loop records the empty list for \<open>K\<close> and tries to save the results:
  when the write works the file holds them, when the file cannot be opened it is as it
  was, and when the write fails part way the file holds the part written; a failed write
  is only logged. In every case the loop goes on with the rest of the list from there, and
  at its end every agency of the list has an entry.
\<close>

theorem sampler_failure_recorded:
  assumes "\<not> already_done d K"
    and "sample_impresso_uids E (get_client_arg E) K sd ed lpq mh delay w = (Inl e, w1)"
  shows "agency_body E sd ed lpq mh delay K d w
           = (dict_set d K [], persist E (dict_set d K []) w1)
     \<and> dict_get (dict_set d K []) K = Some []
     \<and> out_file (persist E (dict_set d K []) w1)
         = (case o_write E (trace w1 @ [OpenWrite (json_dumps (dict_set d K []))]) of
              WriteOk \<Rightarrow> Some (json_dumps (dict_set d K []))
            | OpenFails \<Rightarrow> out_file w1
            | WriteFailsAfter n \<Rightarrow> Some (take n (json_dumps (dict_set d K []))))
     \<and> agency_loop E sd ed lpq mh delay (K # rest) d w
         = agency_loop E sd ed lpq mh delay rest (dict_set d K [])
             (persist E (dict_set d K []) w1)
     \<and> (agency_loop E sd ed lpq mh delay (K # rest) d w = (d', w') \<longrightarrow>
          set (K # rest) \<subseteq> fst ` set d')"
proof -
  have a: "agency_body E sd ed lpq mh delay K d w
           = (dict_set d K [], persist E (dict_set d K []) w1)"
    using assms by (simp add: agency_body_def Let_def)
  have b: "dict_get (dict_set d K []) K = Some []"
    by (simp add: dict_get_set)
  have c: "out_file (persist E (dict_set d K []) w1)
         = (case o_write E (trace w1 @ [OpenWrite (json_dumps (dict_set d K []))]) of
              WriteOk \<Rightarrow> Some (json_dumps (dict_set d K []))
            | OpenFails \<Rightarrow> out_file w1
            | WriteFailsAfter n \<Rightarrow> Some (take n (json_dumps (dict_set d K []))))"
    by (simp add: persist_def emit_def Let_def split: write_outcome.splits)
  have l: "agency_loop E sd ed lpq mh delay (K # rest) d w
         = agency_loop E sd ed lpq mh delay rest (dict_set d K [])
             (persist E (dict_set d K []) w1)"
    using a by simp
  have k: "agency_loop E sd ed lpq mh delay (K # rest) d w = (d', w') \<longrightarrow>
          set (K # rest) \<subseteq> fst ` set d'"
    using agency_loop_keys by blast
  show ?thesis by (rule conjI [OF a conjI [OF b conjI [OF c conjI [OF l k]]]])
qed

theorem sampler_failure_recorded_witness:
  "\<not> already_done [] ''agencyA''
   \<and> sample_impresso_uids facet_down_env (get_client_arg facet_down_env) ''agencyA''
        None None 20 20 1 world0
       = (Inl (Raised TransientQueryError),
          world0\<lparr>trace := [ClockRead, FacetCall 0 ''year'' ''agencyA'' None 200]\<rparr>)
   \<and> o_write facet_down_env
        (trace (world0\<lparr>trace := [ClockRead, FacetCall 0 ''year'' ''agencyA'' None 200]\<rparr>)
           @ [OpenWrite (json_dumps (dict_set [] ''agencyA'' []))]) = WriteOk
   \<and> out_file (snd (agency_body facet_down_env None None 20 20 1 ''agencyA'' [] world0))
       = Some (json_dumps [(''agencyA'', [])])
   \<and> fst (agency_loop facet_down_env None None 20 20 1 [''agencyA'', ''agencyB''] [] world0)
       = [(''agencyA'', []), (''agencyB'', [])]
   \<and> set [''agencyA'', ''agencyB'']
       \<subseteq> fst ` set (fst (agency_loop facet_down_env None None 20 20 1
                             [''agencyA'', ''agencyB''] [] world0))"
proof -
  have h: "\<not> already_done [] ''agencyA''"
    by (simp add: already_done_def dict_get_def)
  have s: "sample_impresso_uids facet_down_env (get_client_arg facet_down_env) ''agencyA''
        None None 20 20 1 world0
       = (Inl (Raised TransientQueryError),
          world0\<lparr>trace := [ClockRead, FacetCall 0 ''year'' ''agencyA'' None 200]\<rparr>)"
    by code_simp
  have o: "o_write facet_down_env
        (trace (world0\<lparr>trace := [ClockRead, FacetCall 0 ''year'' ''agencyA'' None 200]\<rparr>)
           @ [OpenWrite (json_dumps (dict_set [] ''agencyA'' []))]) = WriteOk"
    by (simp add: facet_down_env_def fake_env_def)
  have e: "fst (agency_loop facet_down_env None None 20 20 1 [''agencyA'', ''agencyB''] []
             world0) = [(''agencyA'', []), (''agencyB'', [])]"
    by code_simp
  note t = sampler_failure_recorded [OF h s, where rest = "[''agencyB'']"
      and d' = "fst (agency_loop facet_down_env None None 20 20 1
                       [''agencyA'', ''agencyB''] [] world0)"
      and w' = "snd (agency_loop facet_down_env None None 20 20 1
                       [''agencyA'', ''agencyB''] [] world0)"]
  have p: "agency_loop facet_down_env None None 20 20 1 [''agencyA'', ''agencyB''] [] world0
       = (fst (agency_loop facet_down_env None None 20 20 1
                       [''agencyA'', ''agencyB''] [] world0),
          snd (agency_loop facet_down_env None None 20 20 1
                       [''agencyA'', ''agencyB''] [] world0))"
    by (rule prod.collapse [symmetric])
  have ds: "dict_set [] ''agencyA'' [] = [(''agencyA'', [])]" by simp
  from t have b: "agency_body facet_down_env None None 20 20 1 ''agencyA'' [] world0
           = (dict_set [] ''agencyA'' [],
              persist facet_down_env (dict_set [] ''agencyA'' [])
                (world0\<lparr>trace := [ClockRead, FacetCall 0 ''year'' ''agencyA'' None 200]\<rparr>))"
    by (rule conjunct1)
  from t have "out_file (persist facet_down_env (dict_set [] ''agencyA'' [])
                (world0\<lparr>trace := [ClockRead, FacetCall 0 ''year'' ''agencyA'' None 200]\<rparr>))
       = (case o_write facet_down_env
            (trace (world0\<lparr>trace := [ClockRead, FacetCall 0 ''year'' ''agencyA'' None 200]\<rparr>)
               @ [OpenWrite (json_dumps (dict_set [] ''agencyA'' []))]) of
              WriteOk \<Rightarrow> Some (json_dumps (dict_set [] ''agencyA'' []))
            | OpenFails \<Rightarrow>
                out_file
                  (world0\<lparr>trace := [ClockRead, FacetCall 0 ''year'' ''agencyA'' None 200]\<rparr>)
            | WriteFailsAfter n \<Rightarrow> Some (take n (json_dumps (dict_set [] ''agencyA'' []))))"
    by (rule conjunct1 [OF conjunct2 [OF conjunct2]])
  then have "out_file (persist facet_down_env (dict_set [] ''agencyA'' [])
                (world0\<lparr>trace := [ClockRead, FacetCall 0 ''year'' ''agencyA'' None 200]\<rparr>))
       = Some (json_dumps (dict_set [] ''agencyA'' []))"
    by (simp only: o write_outcome.case)
  then have f: "out_file (snd (agency_body facet_down_env None None 20 20 1 ''agencyA''
        [] world0)) = Some (json_dumps [(''agencyA'', [])])"
    by (simp only: b snd_conv ds)
  from t have k: "set [''agencyA'', ''agencyB'']
       \<subseteq> fst ` set (fst (agency_loop facet_down_env None None 20 20 1
                             [''agencyA'', ''agencyB''] [] world0))"
    by (rule mp [OF conjunct2 [OF conjunct2 [OF conjunct2 [OF conjunct2]]] p])
  show ?thesis by (rule conjI [OF h conjI [OF s conjI [OF o conjI [OF f conjI [OF e k]]]]])
qed

section \<open>Saving the results\<close>

text \<open>
  Claim C7 fails for atomicity: the file is opened for writing, which empties it, and then
  written in place. A process killed right after the open leaves the empty file, which is
  neither the file saved before nor the new one; and a write that fails after five
  characters leaves those five characters.
\<close>

theorem checkpoint_write_not_atomic_counterexample:
  "out_file saved_world = Some ''{}''
   \<and> json_dumps [(''agencyA'', [])] = ''{'' @ [CHR 0x0A] @ ''  '' @ [CHR 0x22] @ ''agencyA''
        @ [CHR 0x22] @ '': []'' @ [CHR 0x0A] @ ''}''
   \<and> out_file (persist_killed 0 [(''agencyA'', [])] saved_world) = Some []
   \<and> out_file (persist_killed 0 [(''agencyA'', [])] saved_world) \<noteq> out_file saved_world
   \<and> out_file (persist_killed 0 [(''agencyA'', [])] saved_world)
       \<noteq> Some (json_dumps [(''agencyA'', [])])
   \<and> out_file (persist disk_full_env [(''agencyA'', [])] saved_world)
       = Some (''{'' @ [CHR 0x0A] @ ''  '' @ [CHR 0x22])"
  by code_simp

text \<open>
  Claim C7 as amended. After the pass for an agency that is not skipped, whether the
  sampler gave UIDs or raised, the results with the entry of that agency set and every
  other entry kept are written to the checkpoint file, in place: when the write works the
  file holds the complete new results, when the file cannot be opened it is as it was, and
  when the write fails part way the file holds the part written. The write is not atomic.
\<close>

theorem checkpoint_rewritten_in_place:
  assumes "\<not> already_done d K"
    and "sample_impresso_uids E (get_client_arg E) K sd ed lpq mh delay w = (r, w1)"
    and "d' = dict_set d K (case r of Inr doc_ids \<Rightarrow> doc_ids | Inl e \<Rightarrow> [])"
    and "outcome = o_write E (trace w1 @ [OpenWrite (json_dumps d')])"
  shows "agency_body E sd ed lpq mh delay K d w = (d', persist E d' w1)
     \<and> (\<forall>k. k \<noteq> K \<longrightarrow> dict_get d' k = dict_get d k)
     \<and> out_file (persist E d' w1)
         = (case outcome of
              WriteOk \<Rightarrow> Some (json_dumps d')
            | OpenFails \<Rightarrow> out_file w1
            | WriteFailsAfter n \<Rightarrow> Some (take n (json_dumps d')))"
proof -
  have a: "agency_body E sd ed lpq mh delay K d w = (d', persist E d' w1)"
    using assms(1,2,3) by (simp add: agency_body_def Let_def)
  have b: "\<forall>k. k \<noteq> K \<longrightarrow> dict_get d' k = dict_get d k"
    using assms(3) by (simp add: dict_get_set)
  have c: "out_file (persist E d' w1)
         = (case outcome of
              WriteOk \<Rightarrow> Some (json_dumps d')
            | OpenFails \<Rightarrow> out_file w1
            | WriteFailsAfter n \<Rightarrow> Some (take n (json_dumps d')))"
    using assms(4) by (simp add: persist_def emit_def Let_def split: write_outcome.splits)
  show ?thesis by (rule conjI [OF a conjI [OF b c]])
qed

theorem checkpoint_rewritten_in_place_witness:
  "\<not> already_done [(''agencyZ'', [''u''])] ''agencyA''
   \<and> fst (sample_impresso_uids fake_env (get_client_arg fake_env) ''agencyA'' None None
            20 2 1 saved_world) = Inr [''NZZ-1920'', ''GDL-1920'']
   \<and> fst (agency_body fake_env None None 20 2 1 ''agencyA'' [(''agencyZ'', [''u''])]
            saved_world)
       = [(''agencyZ'', [''u'']), (''agencyA'', [''NZZ-1920'', ''GDL-1920''])]
   \<and> out_file (snd (agency_body fake_env None None 20 2 1 ''agencyA''
                      [(''agencyZ'', [''u''])] saved_world))
       = Some (json_dumps [(''agencyZ'', [''u'']), (''agencyA'', [''NZZ-1920'', ''GDL-1920''])])
   \<and> ''agencyZ'' \<noteq> ''agencyA''
   \<and> dict_get [(''agencyZ'', [''u'']), (''agencyA'', [''NZZ-1920'', ''GDL-1920''])] ''agencyZ''
       = dict_get [(''agencyZ'', [''u''])] ''agencyZ''"
proof -
  have h: "\<not> already_done [(''agencyZ'', [''u''])] ''agencyA''"
    by (simp add: already_done_def dict_get_def)
  have r: "fst (sample_impresso_uids fake_env (get_client_arg fake_env) ''agencyA'' None None
            20 2 1 saved_world) = Inr [''NZZ-1920'', ''GDL-1920'']"
    by code_simp
  have s: "sample_impresso_uids fake_env (get_client_arg fake_env) ''agencyA'' None None
            20 2 1 saved_world
      = (Inr [''NZZ-1920'', ''GDL-1920''],
         snd (sample_impresso_uids fake_env (get_client_arg fake_env) ''agencyA'' None None
            20 2 1 saved_world))"
    using r by (simp add: prod_eq_iff)
  have d: "[(''agencyZ'', [''u'']), (''agencyA'', [''NZZ-1920'', ''GDL-1920''])]
      = dict_set [(''agencyZ'', [''u''])] ''agencyA''
          (case Inr [''NZZ-1920'', ''GDL-1920''] of Inr doc_ids \<Rightarrow> doc_ids | Inl e \<Rightarrow> [])"
    by simp
  have o: "WriteOk = o_write fake_env
      (trace (snd (sample_impresso_uids fake_env (get_client_arg fake_env) ''agencyA''
                     None None 20 2 1 saved_world))
         @ [OpenWrite (json_dumps
              [(''agencyZ'', [''u'']), (''agencyA'', [''NZZ-1920'', ''GDL-1920''])])])"
    by (simp add: fake_env_def)
  note t = checkpoint_rewritten_in_place [OF h s d o]
  from t have a: "agency_body fake_env None None 20 2 1 ''agencyA'' [(''agencyZ'', [''u''])]
            saved_world
       = ([(''agencyZ'', [''u'']), (''agencyA'', [''NZZ-1920'', ''GDL-1920''])],
          persist fake_env
            [(''agencyZ'', [''u'']), (''agencyA'', [''NZZ-1920'', ''GDL-1920''])]
            (snd (sample_impresso_uids fake_env (get_client_arg fake_env) ''agencyA''
                     None None 20 2 1 saved_world)))"
    by (rule conjunct1)
  from t have f: "out_file (persist fake_env
            [(''agencyZ'', [''u'']), (''agencyA'', [''NZZ-1920'', ''GDL-1920''])]
            (snd (sample_impresso_uids fake_env (get_client_arg fake_env) ''agencyA''
                     None None 20 2 1 saved_world)))
       = Some (json_dumps
            [(''agencyZ'', [''u'']), (''agencyA'', [''NZZ-1920'', ''GDL-1920''])])"
    by simp
  have ne: "''agencyZ'' \<noteq> ''agencyA''" by simp
  have k: "dict_get
        [(''agencyZ'', [''u'']), (''agencyA'', [''NZZ-1920'', ''GDL-1920''])] ''agencyZ''
       = dict_get [(''agencyZ'', [''u''])] ''agencyZ''"
    by (rule mp [OF spec [OF conjunct1 [OF conjunct2 [OF t]]] ne])
  have a1: "fst (agency_body fake_env None None 20 2 1 ''agencyA'' [(''agencyZ'', [''u''])]
            saved_world)
       = [(''agencyZ'', [''u'']), (''agencyA'', [''NZZ-1920'', ''GDL-1920''])]"
    by (simp only: a fst_conv)
  have a2: "out_file (snd (agency_body fake_env None None 20 2 1 ''agencyA''
                      [(''agencyZ'', [''u''])] saved_world))
       = Some (json_dumps [(''agencyZ'', [''u'']), (''agencyA'', [''NZZ-1920'', ''GDL-1920''])])"
    by (simp only: a snd_conv f)
  show ?thesis by (rule conjI [OF h conjI [OF r conjI [OF a1 conjI [OF a2 conjI [OF ne k]]]]])
qed

section \<open>The UIDs returned\<close>

text \<open>
  The loops skip a bucket whose value is missing or empty and append only a non-empty UID,
  so a list returned by the sampler has no empty UID.
\<close>

lemma falsy_paper_skipped:
  "\<not> truthy (b_value paper) \<Longrightarrow>
     paper_body E cl k dr lpq mh delay paper acc w = (Continue acc, w)"
  by (cases "b_value paper") (simp_all add: paper_body_def)

lemma falsy_year_skipped:
  "\<not> truthy (b_value yb) \<Longrightarrow>
     year_body E cl k lpq mh delay yb acc w = (Inr (Continue acc), w)"
  by (cases "b_value yb") (simp_all add: year_body_def)

lemma paper_body_truthy:
  assumes "\<forall>u \<in> set (fst acc). u \<noteq> []"
    and "paper_body E cl k dr lpq mh delay p acc w = (f, w')"
  shows "\<forall>u \<in> set (flow_uids f). u \<noteq> []"
  using assms
  by (auto simp: paper_body_def Let_def flow_uids_def
        split: option.splits if_splits prod.splits sum.splits)

lemma paper_loop_truthy:
  assumes "\<forall>u \<in> set (fst acc). u \<noteq> []"
    and "paper_loop E cl k dr lpq mh delay ps acc w = (f, w')"
  shows "\<forall>u \<in> set (flow_uids f). u \<noteq> []"
  using assms
proof (induction ps arbitrary: acc w)
  case Nil
  then show ?case by (auto simp: flow_uids_def)
next
  case (Cons p ps)
  obtain g w1 where b: "paper_body E cl k dr lpq mh delay p acc w = (g, w1)"
    by (cases "paper_body E cl k dr lpq mh delay p acc w")
  note inv = paper_body_truthy [OF Cons.prems(1) b]
  show ?case
  proof (cases g)
    case (Continue a)
    with Cons.prems(2) b have "paper_loop E cl k dr lpq mh delay ps a w1 = (f, w')" by simp
    moreover from inv Continue have "\<forall>u \<in> set (fst a). u \<noteq> []"
      by (simp add: flow_uids_def)
    ultimately show ?thesis using Cons.IH by blast
  next
    case (Return a)
    with Cons.prems(2) b have "f = g" by simp
    with inv show ?thesis by simp
  qed
qed

lemma year_body_truthy:
  assumes "\<forall>u \<in> set (fst acc). u \<noteq> []"
    and "year_body E cl k lpq mh delay yb acc w = (Inr f, w')"
  shows "\<forall>u \<in> set (flow_uids f). u \<noteq> []"
proof -
  consider (same) "f = Continue acc"
    | (loop) dr ps w1 where "paper_loop E cl k dr lpq mh delay ps acc w1 = (f, w')"
    using assms(2)
    by (auto simp: year_body_def Let_def
          split: option.splits if_splits prod.splits sum.splits)
  then show ?thesis
  proof cases
    case same
    with assms(1) show ?thesis by (simp add: flow_uids_def)
  next
    case loop
    then show ?thesis using paper_loop_truthy [OF assms(1)] by blast
  qed
qed

lemma year_loop_truthy:
  assumes "\<forall>u \<in> set (fst acc). u \<noteq> []"
    and "year_loop E cl k lpq mh delay ybs acc w = (Inr f, w')"
  shows "\<forall>u \<in> set (flow_uids f). u \<noteq> []"
  using assms
proof (induction ybs arbitrary: acc w)
  case Nil
  then show ?case by (auto simp: flow_uids_def)
next
  case (Cons yb ybs)
  obtain r w1 where b: "year_body E cl k lpq mh delay yb acc w = (r, w1)"
    by (cases "year_body E cl k lpq mh delay yb acc w")
  show ?case
  proof (cases r)
    case (Inl e)
    with Cons.prems(2) b show ?thesis by simp
  next
    case (Inr g)
    note inv = year_body_truthy [OF Cons.prems(1) b [unfolded Inr]]
    show ?thesis
    proof (cases g)
      case (Continue a)
      with Cons.prems(2) b Inr
      have "year_loop E cl k lpq mh delay ybs a w1 = (Inr f, w')" by simp
      moreover from inv Continue have "\<forall>u \<in> set (fst a). u \<noteq> []"
        by (simp add: flow_uids_def)
      ultimately show ?thesis using Cons.IH by blast
    next
      case (Return a)
      with Cons.prems(2) b Inr have "f = g" by simp
      with inv show ?thesis by simp
    qed
  qed
qed

lemma sampled_uids_truthy:
  assumes "sample_impresso_uids E cl k sd ed lpq mh delay w = (Inr uids, w')"
  shows "\<forall>u \<in> set uids. u \<noteq> []"
proof -
  from sample_flow [OF assms] show ?thesis
  proof
    assume "uids = []"
    then show ?thesis by simp
  next
    assume "\<exists>ybs w1 f. year_loop E cl k lpq mh delay ybs ([], 0) w1 = (Inr f, w')
              \<and> uids = flow_uids f"
    then obtain ybs w1 f where
      "year_loop E cl k lpq mh delay ybs ([], 0) w1 = (Inr f, w')" "uids = flow_uids f"
      by blast
    then show ?thesis using year_loop_truthy [of "([], 0)"] by simp
  qed
qed

text \<open>
  Claim C10, at a year facet answer of two buckets of which one has no value: the bucket
  is not skipped, since \<^verbatim>\<open>sorted\<close> compares \<^verbatim>\<open>None\<close> with \<^verbatim>\<open>"1920"\<close> and raises
  \<^verbatim>\<open>TypeError\<close> before the loop and its guard are reached; the sampler returns no list.
\<close>

theorem missing_year_value_raises:
  "sample_impresso_uids missing_value_env (Client 7) ''agencyA'' None None 20 20 1 world0
     = (Inl TypeError, world0\<lparr>trace := [FacetCall 7 ''year'' ''agencyA'' None 200]\<rparr>)"
  by code_simp

end
